theory Spec2Isabelle
  imports Complex_Main "HOL-Library.AList"
begin

section \<open>Task data model (types/queue.types.ts)\<close>

datatype TaskPriority = CRITICAL | HIGH | NORMAL | LOW

text \<open>The numeric values of the enum: \<open>CRITICAL = 0, HIGH = 1, NORMAL = 2, LOW = 3\<close>.\<close>

fun priority_value :: "TaskPriority \<Rightarrow> nat" where
  "priority_value CRITICAL = 0"
| "priority_value HIGH = 1"
| "priority_value NORMAL = 2"
| "priority_value LOW = 3"

datatype TaskStatus = PENDING | PROCESSING | COMPLETED | FAILED | RETRYING | CANCELLED

text \<open>
  Thrown values. \<open>Error msg\<close> is JavaScript's \<open>new Error(msg)\<close>;
  \<open>CircuitBreakerOpenError\<close> is the subclass the circuit breaker exports.
\<close>

datatype error = Error string | CircuitBreakerOpenError string

text \<open>
  The \<open>name\<close> of a thrown value: \<open>Error.prototype.name\<close> for a plain
  \<open>Error\<close>, and what the constructor of the subclass assigns to \<open>this.name\<close>.
\<close>

fun error_name :: "error \<Rightarrow> string" where
  "error_name (Error msg) = ''Error''"
| "error_name (CircuitBreakerOpenError msg) = ''CircuitBreakerOpenError''"

text \<open>
  The \<open>Task\<close> interface. Every field but \<open>execute\<close> is optional in the
  source, hence \<open>option\<close>. The closure \<open>execute\<close> is not a field of the
  model: whether and how a call of it settles is an input of the machine below.
\<close>

record Task =
  task_id :: "string option"
  priority :: "TaskPriority option"
  status :: "TaskStatus option"
  retries :: "nat option"
  addedAt :: "nat option"
  startedAt :: "nat option"
  completedAt :: "nat option"
  failedAt :: "nat option"
  lastError :: "error option"
  result :: "string option"

text \<open>An object literal \<open>{ id, priority, execute }\<close>, as a caller passes it.\<close>

definition task_literal :: "string option \<Rightarrow> TaskPriority option \<Rightarrow> Task" where
  "task_literal i p =
     \<lparr>task_id = i, priority = p, status = None, retries = None, addedAt = None,
      startedAt = None, completedAt = None, failedAt = None, lastError = None, result = None\<rparr>"

text \<open>JavaScript truthiness of an optional string and of an optional enum value.\<close>

definition truthy_id :: "string option \<Rightarrow> bool" where
  "truthy_id i = (case i of None \<Rightarrow> False | Some s \<Rightarrow> s \<noteq> [])"

definition truthy_priority :: "TaskPriority option \<Rightarrow> bool" where
  "truthy_priority p = (case p of None \<Rightarrow> False | Some v \<Rightarrow> priority_value v \<noteq> 0)"

section \<open>PriorityQueue (queue/PriorityQueue.ts)\<close>

text \<open>
  \<open>queues\<close> is the \<open>Map<number, Task[]>\<close>; \<open>priorities\<close> is the fixed
  scan order. The constructor stores an empty array under each of the four keys, in
  that order, so the map's own iteration order is the order of \<open>priorities\<close>.
\<close>

record PriorityQueue =
  queues :: "TaskPriority \<rightharpoonup> Task list"

definition priorities :: "TaskPriority list" where
  "priorities = [CRITICAL, HIGH, NORMAL, LOW]"

definition PriorityQueue_new :: PriorityQueue where
  "PriorityQueue_new = \<lparr>queues = foldl (\<lambda>m p. m(p \<mapsto> [])) Map.empty priorities\<rparr>"

text \<open>\<open>task.priority ?? TaskPriority.NORMAL\<close>: only a missing priority is replaced.\<close>

definition effective_priority :: "Task \<Rightarrow> TaskPriority" where
  "effective_priority task = (case priority task of None \<Rightarrow> NORMAL | Some p \<Rightarrow> p)"

definition enqueue :: "Task \<Rightarrow> PriorityQueue \<Rightarrow> PriorityQueue" where
  "enqueue task q =
     (let p = effective_priority task;
          task' = task\<lparr>priority := Some p\<rparr>
      in case queues q p of
           Some queue \<Rightarrow> q\<lparr>queues := (queues q)(p \<mapsto> queue @ [task'])\<rparr>
         | None \<Rightarrow> q\<lparr>queues := (queues q)(p \<mapsto> [task'])\<rparr>)"

text \<open>The scan of \<open>dequeue\<close> over the priorities still to visit.\<close>

fun dequeue_scan :: "TaskPriority list \<Rightarrow> PriorityQueue \<Rightarrow> Task option \<times> PriorityQueue" where
  "dequeue_scan [] q = (None, q)"
| "dequeue_scan (p # ps) q =
     (case queues q p of
        Some (t # rest) \<Rightarrow> (Some t, q\<lparr>queues := (queues q)(p \<mapsto> rest)\<rparr>)
      | _ \<Rightarrow> dequeue_scan ps q)"

definition dequeue :: "PriorityQueue \<Rightarrow> Task option \<times> PriorityQueue" where
  "dequeue q = dequeue_scan priorities q"

fun peek_scan :: "TaskPriority list \<Rightarrow> PriorityQueue \<Rightarrow> Task option" where
  "peek_scan [] q = None"
| "peek_scan (p # ps) q =
     (case queues q p of
        Some (t # rest) \<Rightarrow> Some t
      | _ \<Rightarrow> peek_scan ps q)"

definition peek :: "PriorityQueue \<Rightarrow> Task option" where
  "peek q = peek_scan priorities q"

text \<open>The array stored under a key; a key that is absent holds no task.\<close>

definition tier :: "PriorityQueue \<Rightarrow> TaskPriority \<Rightarrow> Task list" where
  "tier q p = (case queues q p of None \<Rightarrow> [] | Some ts \<Rightarrow> ts)"

definition getAll :: "PriorityQueue \<Rightarrow> Task list" where
  "getAll q = concat (map (tier q) priorities)"

definition PriorityQueue_size :: "PriorityQueue \<Rightarrow> nat" where
  "PriorityQueue_size q = sum_list (map (\<lambda>p. length (tier q p)) priorities)"

definition isEmpty :: "PriorityQueue \<Rightarrow> bool" where
  "isEmpty q = (PriorityQueue_size q = 0)"

definition PriorityQueue_clear :: "PriorityQueue \<Rightarrow> PriorityQueue" where
  "PriorityQueue_clear q = q\<lparr>queues := (\<lambda>p. map_option (\<lambda>_. []) (queues q p))\<rparr>"

fun findById_scan :: "TaskPriority list \<Rightarrow> string \<Rightarrow> PriorityQueue \<Rightarrow> Task option" where
  "findById_scan [] i q = None"
| "findById_scan (p # ps) i q =
     (case find (\<lambda>t. task_id t = Some i) (tier q p) of
        Some t \<Rightarrow> Some t
      | None \<Rightarrow> findById_scan ps i q)"

definition findById :: "string \<Rightarrow> PriorityQueue \<Rightarrow> Task option" where
  "findById i q = findById_scan priorities i q"

text \<open>\<open>findIndex\<close> followed by \<open>splice(index, 1)\<close>: \<open>None\<close> when no element matches.\<close>

fun splice_first :: "('a \<Rightarrow> bool) \<Rightarrow> 'a list \<Rightarrow> 'a list option" where
  "splice_first P [] = None"
| "splice_first P (x # xs) =
     (if P x then Some xs else map_option (\<lambda>ys. x # ys) (splice_first P xs))"

fun remove_scan :: "TaskPriority list \<Rightarrow> string \<Rightarrow> PriorityQueue \<Rightarrow> bool \<times> PriorityQueue" where
  "remove_scan [] i q = (False, q)"
| "remove_scan (p # ps) i q =
     (case queues q p of
        None \<Rightarrow> remove_scan ps i q
      | Some queue \<Rightarrow>
          (case splice_first (\<lambda>t. task_id t = Some i) queue of
             Some queue' \<Rightarrow> (True, q\<lparr>queues := (queues q)(p \<mapsto> queue')\<rparr>)
           | None \<Rightarrow> remove_scan ps i q))"

definition PriorityQueue_remove :: "string \<Rightarrow> PriorityQueue \<Rightarrow> bool \<times> PriorityQueue" where
  "PriorityQueue_remove i q = remove_scan priorities i q"

definition reorder :: "PriorityQueue \<Rightarrow> PriorityQueue" where
  "reorder q = foldl (\<lambda>acc t. enqueue t acc) (PriorityQueue_clear q) (getAll q)"

text \<open>
  The effect on the queue of assigning to a field of the object \<open>findById\<close> returned:
  the first task with that id, in scan order, is updated where it stands.
\<close>

fun assign_first :: "('a \<Rightarrow> bool) \<Rightarrow> ('a \<Rightarrow> 'a) \<Rightarrow> 'a list \<Rightarrow> 'a list option" where
  "assign_first P f [] = None"
| "assign_first P f (x # xs) =
     (if P x then Some (f x # xs) else map_option (\<lambda>ys. x # ys) (assign_first P f xs))"

fun assign_scan ::
  "TaskPriority list \<Rightarrow> string \<Rightarrow> (Task \<Rightarrow> Task) \<Rightarrow> PriorityQueue \<Rightarrow> PriorityQueue" where
  "assign_scan [] i f q = q"
| "assign_scan (p # ps) i f q =
     (case assign_first (\<lambda>t. task_id t = Some i) f (tier q p) of
        Some queue' \<Rightarrow> q\<lparr>queues := (queues q)(p \<mapsto> queue')\<rparr>
      | None \<Rightarrow> assign_scan ps i f q)"

text \<open>Repeated \<open>dequeue\<close> until it returns \<open>null\<close>; the tasks in the order returned.\<close>

lemma tier_update:
  "tier (q\<lparr>queues := (queues q)(p \<mapsto> ts)\<rparr>) p' = (if p' = p then ts else tier q p')"
  by (simp add: tier_def)

lemma dequeue_scan_spec:
  "distinct ps \<Longrightarrow> dequeue_scan ps q = (r, q') \<Longrightarrow>
     (\<forall>p. p \<notin> set ps \<longrightarrow> tier q' p = tier q p) \<and>
     (case r of
        None \<Rightarrow> q' = q \<and> concat (map (tier q) ps) = []
      | Some t \<Rightarrow> concat (map (tier q) ps) = t # concat (map (tier q') ps))"
proof (induction ps arbitrary: r q')
  case Nil
  then show ?case by auto
next
  case (Cons p ps)
  show ?case
  proof (cases "tier q p")
    case Nil
    then have scan: "dequeue_scan (p # ps) q = dequeue_scan ps q"
      by (auto simp: tier_def split: option.splits list.splits)
    with Cons.prems have rec: "dequeue_scan ps q = (r, q')" by simp
    from Cons.prems have d: "distinct ps" and notin: "p \<notin> set ps" by auto
    from Cons.IH [OF d rec] have frame: "\<forall>p'. p' \<notin> set ps \<longrightarrow> tier q' p' = tier q p'"
      and res: "(case r of None \<Rightarrow> q' = q \<and> concat (map (tier q) ps) = []
                 | Some t \<Rightarrow> concat (map (tier q) ps) = t # concat (map (tier q') ps))"
      by auto
    from frame notin Nil have "tier q' p = []" by simp
    with frame res Nil show ?thesis by (auto split: option.splits)
  next
    case (Cons t rest)
    then have qp: "queues q p = Some (t # rest)"
      by (auto simp: tier_def split: option.splits)
    with Cons.prems have r: "r = Some t" and q': "q' = q\<lparr>queues := (queues q)(p \<mapsto> rest)\<rparr>"
      by auto
    from Cons.prems have notin: "p \<notin> set ps" by auto
    have "map (tier q') ps = map (tier q) ps"
      by (rule map_cong [OF refl]) (use notin in \<open>auto simp: q' tier_update\<close>)
    then have same: "concat (map (tier q') ps) = concat (map (tier q) ps)"
      by (rule arg_cong)
    have here: "tier q' p = rest"
      by (simp add: q' tier_update)
    have frame: "\<forall>p'. p' \<notin> set (p # ps) \<longrightarrow> tier q' p' = tier q p'"
      by (simp add: q' tier_update)
    show ?thesis
      using Cons same here frame by (simp add: r)
  qed
qed

lemma dequeue_size:
  assumes "dequeue q = (Some t, q')"
  shows "PriorityQueue_size q' < PriorityQueue_size q"
proof -
  have "distinct priorities" by (simp add: priorities_def)
  from dequeue_scan_spec [OF this assms [unfolded dequeue_def]]
  have "getAll q = t # getAll q'" by (simp add: getAll_def)
  then have "length (getAll q') < length (getAll q)" by simp
  then show ?thesis
    by (simp add: getAll_def PriorityQueue_size_def length_concat comp_def)
qed

function drain :: "PriorityQueue \<Rightarrow> Task list" where
  "drain q = (case dequeue q of (None, _) \<Rightarrow> [] | (Some t, q') \<Rightarrow> t # drain q')"
  by pat_completeness auto
termination
  by (relation "measure PriorityQueue_size") (auto simp: dequeue_size [OF sym])

declare drain.simps [simp del]

section \<open>DeadLetterQueue (queue/DeadLetterQueue.ts)\<close>

text \<open>
  \<open>tasks\<close> is the \<open>Map<string, Task>\<close> as its entries in insertion order:
  \<open>AList.update\<close> is \<open>Map.set\<close> (a present key keeps its place, a new key goes
  last) and \<open>AList.delete\<close> is \<open>Map.delete\<close>. A key is \<open>None\<close> when the
  task has no id (\<open>task.id!\<close> is then \<open>undefined\<close> at run time). The queue is
  an \<open>EventEmitter\<close>: \<open>dlq_emitted\<close> lists what it has emitted, oldest first.
\<close>

datatype DeadLetterQueue_event = DLQ_overflow string | DLQ_taskAdded "string option"

record DeadLetterQueue =
  tasks :: "(string option \<times> Task) list"
  maxSize :: nat
  dlq_emitted :: "DeadLetterQueue_event list"

definition DeadLetterQueue_new :: "nat \<Rightarrow> DeadLetterQueue" where
  "DeadLetterQueue_new n = \<lparr>tasks = [], maxSize = n, dlq_emitted = []\<rparr>"

text \<open>
  \<open>add\<close>: the oldest key is \<open>tasks.keys().next().value\<close>; the eviction is guarded
  by \<open>if (oldestId)\<close>, which is false for an empty map (\<open>undefined\<close>), for the key
  \<open>undefined\<close> and for the empty string.
\<close>

definition DeadLetterQueue_add :: "Task \<Rightarrow> DeadLetterQueue \<Rightarrow> DeadLetterQueue" where
  "DeadLetterQueue_add task d =
     (let d1 = (if length (tasks d) \<ge> maxSize d then
                  (case tasks d of
                     (Some oldestId, _) # _ \<Rightarrow>
                       if oldestId \<noteq> [] then
                         d\<lparr>tasks := AList.delete (Some oldestId) (tasks d),
                           dlq_emitted := dlq_emitted d @ [DLQ_overflow oldestId]\<rparr>
                       else d
                   | _ \<Rightarrow> d)
                else d)
      in d1\<lparr>tasks := AList.update (task_id task) task (tasks d1),
            dlq_emitted := dlq_emitted d1 @ [DLQ_taskAdded (task_id task)]\<rparr>)"

definition DeadLetterQueue_get :: "string \<Rightarrow> DeadLetterQueue \<Rightarrow> Task option" where
  "DeadLetterQueue_get i d = map_of (tasks d) (Some i)"

definition DeadLetterQueue_getAll :: "DeadLetterQueue \<Rightarrow> Task list" where
  "DeadLetterQueue_getAll d = map snd (tasks d)"

definition DeadLetterQueue_remove :: "string \<Rightarrow> DeadLetterQueue \<Rightarrow> bool \<times> DeadLetterQueue" where
  "DeadLetterQueue_remove i d =
     (Some i \<in> set (map fst (tasks d)), d\<lparr>tasks := AList.delete (Some i) (tasks d)\<rparr>)"

definition DeadLetterQueue_clear :: "DeadLetterQueue \<Rightarrow> DeadLetterQueue" where
  "DeadLetterQueue_clear d = d\<lparr>tasks := []\<rparr>"

definition DeadLetterQueue_size :: "DeadLetterQueue \<Rightarrow> nat" where
  "DeadLetterQueue_size d = length (tasks d)"

section \<open>TaskQueue (queue/TaskQueue.ts)\<close>

text \<open>
  The configuration, without the persistence options: the model is of a queue whose
  \<open>persistence\<close> field is \<open>null\<close> (\<open>enablePersistence = false\<close>).
\<close>

record QueueConfig =
  concurrency :: nat
  maxQueueSize :: nat
  enableDeadLetter :: bool
  maxRetries :: nat
  retryDelay :: nat
  timeout :: nat

record Metrics =
  totalAdded :: nat
  totalProcessed :: nat
  totalFailed :: nat
  totalRetried :: nat
  averageProcessTime :: real
  peakConcurrency :: nat

text \<open>What the queue emits; an event that passes the task object carries its snapshot.\<close>

datatype TaskQueue_event =
    Ev_taskAdded Task
  | Ev_started
  | Ev_paused
  | Ev_resumed
  | Ev_stopped
  | Ev_idle
  | Ev_taskStarted Task
  | Ev_taskCompleted Task string
  | Ev_taskError Task error
  | Ev_taskRetrying Task nat nat
  | Ev_taskFailed Task error
  | Ev_taskCancelled string
  | Ev_taskCancelling string
  | Ev_priorityUpdated string TaskPriority
  | Ev_cleared

text \<open>
  The fields of the class, and the suspended computations an asynchronous method leaves
  behind: \<open>loops\<close> counts the calls of \<open>processQueue\<close> that have not returned (each
  stands at the head of its \<open>while\<close>), \<open>running\<close> holds the tasks whose
  \<open>processTask\<close> awaits \<open>executeWithTimeout\<close>, and \<open>timers\<close> holds the
  re-enqueues \<open>handleTaskError\<close> scheduled with \<open>setTimeout\<close>, each with its delay.
  \<open>activeTasks\<close> is the \<open>Set<string>\<close> in insertion order.
\<close>

record TaskQueue =
  priorityQueue :: PriorityQueue
  deadLetterQueue :: DeadLetterQueue
  activeTasks :: "string option list"
  completedTasks :: "(string option \<times> string) list"
  failedTasks :: "(string option \<times> error) list"
  isProcessing :: bool
  isPaused :: bool
  metrics :: Metrics
  emitted :: "TaskQueue_event list"
  loops :: nat
  running :: "Task list"
  timers :: "(nat \<times> Task) list"

definition TaskQueue_new :: "QueueConfig \<Rightarrow> TaskQueue" where
  "TaskQueue_new config =
     \<lparr>priorityQueue = PriorityQueue_new,
      deadLetterQueue = DeadLetterQueue_new (maxRetries config),
      activeTasks = [],
      completedTasks = [],
      failedTasks = [],
      isProcessing = False,
      isPaused = False,
      metrics = \<lparr>totalAdded = 0, totalProcessed = 0, totalFailed = 0, totalRetried = 0,
                 averageProcessTime = 0, peakConcurrency = 0\<rparr>,
      emitted = [],
      loops = 0,
      running = [],
      timers = []\<rparr>"

text \<open>\<open>Set.add\<close> and \<open>Set.delete\<close>.\<close>

definition set_add :: "'a \<Rightarrow> 'a list \<Rightarrow> 'a list" where
  "set_add x xs = (if x \<in> set xs then xs else xs @ [x])"

definition set_delete :: "'a \<Rightarrow> 'a list \<Rightarrow> 'a list" where
  "set_delete x xs = removeAll x xs"

text \<open>
  What a call reads from outside: \<open>Date.now()\<close>, and the text that
  \<open>generateTaskId\<close> puts after \<open>task-\<close> (the clock and a random suffix).
\<close>

record Env =
  env_now :: nat
  env_rnd :: string

definition generateTaskId :: "Env \<Rightarrow> string" where
  "generateTaskId env = ''task-'' @ env_rnd env"

definition start :: "TaskQueue \<Rightarrow> TaskQueue" where
  "start s =
     (if isProcessing s then s
      else s\<lparr>isProcessing := True, isPaused := False,
             emitted := emitted s @ [Ev_started], loops := loops s + 1\<rparr>)"

text \<open>
  The body of the \<open>for\<close> loop of \<open>add\<close> after the size check: what it assigns to
  the task, and what it does to the queue.
\<close>

definition add_assign :: "Task \<Rightarrow> Env \<Rightarrow> Task" where
  "add_assign t env =
     (let t1 = (if \<not> truthy_id (task_id t) then t\<lparr>task_id := Some (generateTaskId env)\<rparr> else t);
          t2 = (if \<not> truthy_priority (priority t1) then t1\<lparr>priority := Some NORMAL\<rparr> else t1)
      in t2\<lparr>status := Some PENDING, addedAt := Some (env_now env), retries := Some 0\<rparr>)"

definition add_one :: "Task \<Rightarrow> Env \<Rightarrow> TaskQueue \<Rightarrow> TaskQueue" where
  "add_one t env s =
     s\<lparr>priorityQueue := enqueue (add_assign t env) (priorityQueue s),
       metrics := (metrics s)\<lparr>totalAdded := totalAdded (metrics s) + 1\<rparr>,
       emitted := emitted s @ [Ev_taskAdded (add_assign t env)]\<rparr>"

text \<open>
  The \<open>for\<close> loop of \<open>add\<close>. A throw leaves the tasks before it enqueued, so the
  state comes back with the error.
\<close>

fun add_each :: "QueueConfig \<Rightarrow> (Task \<times> Env) list \<Rightarrow> TaskQueue \<Rightarrow> error option \<times> TaskQueue" where
  "add_each config [] s = (None, s)"
| "add_each config ((t, env) # rest) s =
     (if PriorityQueue_size (priorityQueue s) \<ge> maxQueueSize config
      then (Some (Error ''Queue is full''), s)
      else add_each config rest (add_one t env s))"

definition TaskQueue_add :: "QueueConfig \<Rightarrow> (Task \<times> Env) list \<Rightarrow> TaskQueue \<Rightarrow> error option \<times> TaskQueue" where
  "TaskQueue_add config ts s =
     (case add_each config ts s of
        (Some e, s') \<Rightarrow> (Some e, s')
      | (None, s') \<Rightarrow> (None, if \<not> isProcessing s' \<and> \<not> isPaused s' then start s' else s'))"

definition pause :: "TaskQueue \<Rightarrow> TaskQueue" where
  "pause s = s\<lparr>isPaused := True, emitted := emitted s @ [Ev_paused]\<rparr>"

definition resume :: "TaskQueue \<Rightarrow> TaskQueue" where
  "resume s =
     (if \<not> isPaused s then s
      else s\<lparr>isPaused := False, emitted := emitted s @ [Ev_resumed], loops := loops s + 1\<rparr>)"

text \<open>
  \<open>stop\<close> in its two halves: before the wait for the active tasks, and after it.
  The second half of a graceful stop runs only once \<open>activeTasks\<close> is empty.
\<close>

definition stop_begin :: "TaskQueue \<Rightarrow> TaskQueue" where
  "stop_begin s = s\<lparr>isPaused := True\<rparr>"

definition stop_end :: "bool \<Rightarrow> TaskQueue \<Rightarrow> TaskQueue" where
  "stop_end graceful s =
     (if graceful \<and> activeTasks s \<noteq> [] then s
      else s\<lparr>isProcessing := False, emitted := emitted s @ [Ev_stopped]\<rparr>)"

text \<open>
  \<open>processTask\<close> up to its \<open>await\<close>: the task is marked active, set to PROCESSING
  and its \<open>execute\<close> is called.
\<close>

definition processTask_begin :: "nat \<Rightarrow> Task \<Rightarrow> TaskQueue \<Rightarrow> TaskQueue" where
  "processTask_begin now task s =
     (let active = set_add (task_id task) (activeTasks s);
          task' = task\<lparr>status := Some PROCESSING, startedAt := Some now\<rparr>
      in s\<lparr>activeTasks := active,
            emitted := emitted s @ [Ev_taskStarted task'],
            metrics := (if length active > peakConcurrency (metrics s)
                        then (metrics s)\<lparr>peakConcurrency := length active\<rparr> else metrics s),
            running := running s @ [task']\<rparr>)"

text \<open>
  One pass of a \<open>processQueue\<close> loop, from the test of the \<open>while\<close> to the next
  \<open>await\<close> or \<open>continue\<close>. The outcome says what the loop did.
\<close>

datatype LoopOutcome = Exited | Slept nat | Launched Task

definition processQueue_pass :: "QueueConfig \<Rightarrow> nat \<Rightarrow> TaskQueue \<Rightarrow> LoopOutcome \<times> TaskQueue" where
  "processQueue_pass config now s =
     (if \<not> (isProcessing s \<and> \<not> isPaused s) then (Exited, s\<lparr>loops := loops s - 1\<rparr>)
      else if length (activeTasks s) \<ge> concurrency config then (Slept 50, s)
      else
        (case dequeue (priorityQueue s) of
           (None, _) \<Rightarrow>
             (Slept 100,
              if activeTasks s = []
              then s\<lparr>isProcessing := False, emitted := emitted s @ [Ev_idle]\<rparr> else s)
         | (Some task, pq) \<Rightarrow>
             (Launched task, processTask_begin now task (s\<lparr>priorityQueue := pq\<rparr>))))"

definition handleTaskError :: "QueueConfig \<Rightarrow> nat \<Rightarrow> Task \<Rightarrow> error \<Rightarrow> TaskQueue \<Rightarrow> TaskQueue" where
  "handleTaskError config now task err s =
     (let n = (case retries task of None \<Rightarrow> 0 | Some r \<Rightarrow> r) + 1;
          t1 = task\<lparr>retries := Some n, lastError := Some err\<rparr>;
          s1 = s\<lparr>emitted := emitted s @ [Ev_taskError t1 err]\<rparr>
      in if n < maxRetries config then
           let t2 = t1\<lparr>status := Some RETRYING\<rparr>;
               delay = retryDelay config * 2 ^ (n - 1)
           in s1\<lparr>metrics := (metrics s1)\<lparr>totalRetried := totalRetried (metrics s1) + 1\<rparr>,
                  emitted := emitted s1 @ [Ev_taskRetrying t2 delay n],
                  timers := timers s1 @ [(delay, t2)]\<rparr>
         else
           let t2 = t1\<lparr>status := Some FAILED, failedAt := Some now\<rparr>;
               s2 = s1\<lparr>failedTasks := AList.update (task_id t2) err (failedTasks s1),
                       metrics := (metrics s1)\<lparr>totalFailed := totalFailed (metrics s1) + 1\<rparr>\<rparr>;
               s3 = (if enableDeadLetter config
                     then s2\<lparr>deadLetterQueue := DeadLetterQueue_add t2 (deadLetterQueue s2)\<rparr>
                     else s2)
           in s3\<lparr>emitted := emitted s3 @ [Ev_taskFailed t2 err]\<rparr>)"

text \<open>
  The rest of \<open>processTask\<close> for the \<open>i\<close>-th waiting task: its \<open>execute\<close> resolved
  with \<open>r\<close>, or the race rejected with \<open>err\<close> (the task's own error, or
  \<open>Error ''Task timeout''\<close> from the timer). \<open>finally\<close> frees the slot either way.
\<close>

definition processTask_resolved :: "nat \<Rightarrow> string \<Rightarrow> nat \<Rightarrow> TaskQueue \<Rightarrow> TaskQueue" where
  "processTask_resolved i r now s =
     (if i < length (running s) then
        let task = running s ! i;
            task' = task\<lparr>status := Some COMPLETED, completedAt := Some now, result := Some r\<rparr>;
            n = totalProcessed (metrics s) + 1;
            processTime = real now - real (case startedAt task of None \<Rightarrow> 0 | Some t \<Rightarrow> t)
        in s\<lparr>running := take i (running s) @ drop (Suc i) (running s),
              completedTasks := AList.update (task_id task') r (completedTasks s),
              metrics := (metrics s)\<lparr>totalProcessed := n,
                averageProcessTime :=
                  (averageProcessTime (metrics s) * real (n - 1) + processTime) / real n\<rparr>,
              emitted := emitted s @ [Ev_taskCompleted task' r],
              activeTasks := set_delete (task_id task') (activeTasks s)\<rparr>
      else s)"

definition processTask_rejected :: "QueueConfig \<Rightarrow> nat \<Rightarrow> error \<Rightarrow> nat \<Rightarrow> TaskQueue \<Rightarrow> TaskQueue" where
  "processTask_rejected config i err now s =
     (if i < length (running s) then
        let task = running s ! i;
            s1 = handleTaskError config now task err
                   (s\<lparr>running := take i (running s) @ drop (Suc i) (running s)\<rparr>)
        in s1\<lparr>activeTasks := set_delete (task_id task) (activeTasks s1)\<rparr>
      else s)"

text \<open>The callback of the \<open>i\<close>-th pending \<open>setTimeout\<close> of \<open>handleTaskError\<close>.\<close>

definition retry_timer_fired :: "nat \<Rightarrow> TaskQueue \<Rightarrow> TaskQueue" where
  "retry_timer_fired i s =
     (if i < length (timers s) then
        s\<lparr>timers := take i (timers s) @ drop (Suc i) (timers s),
          priorityQueue := enqueue (snd (timers s ! i)) (priorityQueue s)\<rparr>
      else s)"

definition updatePriority :: "string \<Rightarrow> TaskPriority \<Rightarrow> TaskQueue \<Rightarrow> TaskQueue" where
  "updatePriority taskId p s =
     (case findById taskId (priorityQueue s) of
        Some task \<Rightarrow>
          s\<lparr>priorityQueue :=
               reorder (assign_scan priorities taskId (\<lambda>t. t\<lparr>priority := Some p\<rparr>) (priorityQueue s)),
            emitted := emitted s @ [Ev_priorityUpdated taskId p]\<rparr>
      | None \<Rightarrow> s)"

definition cancel :: "string \<Rightarrow> TaskQueue \<Rightarrow> bool \<times> TaskQueue" where
  "cancel taskId s =
     (case PriorityQueue_remove taskId (priorityQueue s) of
        (True, pq) \<Rightarrow> (True, s\<lparr>priorityQueue := pq, emitted := emitted s @ [Ev_taskCancelled taskId]\<rparr>)
      | (False, _) \<Rightarrow>
          if Some taskId \<in> set (activeTasks s)
          then (False, s\<lparr>emitted := emitted s @ [Ev_taskCancelling taskId]\<rparr>)
          else (False, s))"

definition cancelTask :: "string \<Rightarrow> TaskQueue \<Rightarrow> bool \<times> TaskQueue" where
  "cancelTask taskId s =
     (case PriorityQueue_remove taskId (priorityQueue s) of
        (True, pq) \<Rightarrow> (True, s\<lparr>priorityQueue := pq, emitted := emitted s @ [Ev_taskCancelled taskId]\<rparr>)
      | (False, _) \<Rightarrow>
          if Some taskId \<in> set (activeTasks s)
          then (True, s\<lparr>emitted := emitted s @ [Ev_taskCancelling taskId]\<rparr>)
          else (False, s))"

definition retryFailed :: "string option \<Rightarrow> TaskQueue \<Rightarrow> TaskQueue" where
  "retryFailed taskId s =
     (case (if truthy_id taskId then taskId else None) of
        Some i \<Rightarrow>
          (case DeadLetterQueue_get i (deadLetterQueue s) of
             Some task \<Rightarrow>
               s\<lparr>priorityQueue :=
                    enqueue (task\<lparr>retries := Some 0, status := Some PENDING\<rparr>) (priorityQueue s),
                 deadLetterQueue := snd (DeadLetterQueue_remove i (deadLetterQueue s))\<rparr>
           | None \<Rightarrow> s)
      | None \<Rightarrow>
          s\<lparr>priorityQueue :=
               foldl (\<lambda>acc task. enqueue (task\<lparr>retries := Some 0, status := Some PENDING\<rparr>) acc)
                 (priorityQueue s) (DeadLetterQueue_getAll (deadLetterQueue s)),
            deadLetterQueue := DeadLetterQueue_clear (deadLetterQueue s)\<rparr>)"

definition TaskQueue_clear :: "bool \<Rightarrow> bool \<Rightarrow> bool \<Rightarrow> TaskQueue \<Rightarrow> TaskQueue" where
  "TaskQueue_clear clearPending clearCompleted clearFailed s =
     (let s1 = (if clearPending then s\<lparr>priorityQueue := PriorityQueue_clear (priorityQueue s)\<rparr> else s);
          s2 = (if clearCompleted then s1\<lparr>completedTasks := []\<rparr> else s1);
          s3 = (if clearFailed
                then s2\<lparr>failedTasks := [],
                        deadLetterQueue := DeadLetterQueue_clear (deadLetterQueue s2)\<rparr>
                else s2)
      in s3\<lparr>emitted := emitted s3 @ [Ev_cleared]\<rparr>)"

text \<open>
  The queue as a machine: a call of a public method, a pass of a processing loop, the
  settling of a running task, or a retry timer firing.
\<close>

datatype Action =
    Add "(Task \<times> Env) list"
  | Start
  | Pause
  | Resume
  | StopBegin
  | StopEnd bool
  | LoopPass nat
  | Resolved nat string nat
  | Rejected nat error nat
  | TimerFired nat
  | UpdatePriority string TaskPriority
  | Cancel string
  | CancelTask string
  | RetryFailed "string option"
  | Clear bool bool bool

fun step :: "QueueConfig \<Rightarrow> Action \<Rightarrow> TaskQueue \<Rightarrow> TaskQueue" where
  "step config (Add ts) s = snd (TaskQueue_add config ts s)"
| "step config Start s = start s"
| "step config Pause s = pause s"
| "step config Resume s = resume s"
| "step config StopBegin s = stop_begin s"
| "step config (StopEnd graceful) s = stop_end graceful s"
| "step config (LoopPass now) s = (if loops s = 0 then s else snd (processQueue_pass config now s))"
| "step config (Resolved i r now) s = processTask_resolved i r now s"
| "step config (Rejected i err now) s = processTask_rejected config i err now s"
| "step config (TimerFired i) s = retry_timer_fired i s"
| "step config (UpdatePriority taskId p) s = updatePriority taskId p s"
| "step config (Cancel taskId) s = snd (cancel taskId s)"
| "step config (CancelTask taskId) s = snd (cancelTask taskId s)"
| "step config (RetryFailed taskId) s = retryFailed taskId s"
| "step config (Clear a b c) s = TaskQueue_clear a b c s"

definition run :: "QueueConfig \<Rightarrow> Action list \<Rightarrow> TaskQueue \<Rightarrow> TaskQueue" where
  "run config acts s = foldl (\<lambda>s a. step config a s) s acts"

text \<open>
  The passes a \<open>processQueue\<close> loop makes before its first \<open>await\<close>: it
  launches tasks until it is at capacity or finds the queue empty. They run inside the
  call of \<open>processQueue\<close>, hence inside the \<open>start\<close> that made the call.
\<close>

lemma pass_launched_size:
  assumes "processQueue_pass config now s = (Launched task, s')"
  shows "PriorityQueue_size (priorityQueue s') < PriorityQueue_size (priorityQueue s)"
proof -
  obtain r pq where d: "dequeue (priorityQueue s) = (r, pq)"
    by (cases "dequeue (priorityQueue s)")
  with assms obtain t where t: "r = Some t" and s': "s' = processTask_begin now t (s\<lparr>priorityQueue := pq\<rparr>)"
    by (cases r) (auto simp: processQueue_pass_def split: if_splits)
  from d t have "PriorityQueue_size pq < PriorityQueue_size (priorityQueue s)"
    by (simp add: dequeue_size)
  then show ?thesis
    by (simp add: s' processTask_begin_def Let_def)
qed

function processQueue_sync :: "QueueConfig \<Rightarrow> nat \<Rightarrow> TaskQueue \<Rightarrow> LoopOutcome \<times> TaskQueue" where
  "processQueue_sync config now s =
     (case processQueue_pass config now s of
        (outcome, s') \<Rightarrow>
          (case outcome of
             Launched task \<Rightarrow> processQueue_sync config now s'
           | _ \<Rightarrow> (outcome, s')))"
  by pat_completeness auto
termination
  by (relation "measure (\<lambda>(config, now, s). PriorityQueue_size (priorityQueue s))")
     (auto simp: pass_launched_size [OF sym])

declare processQueue_sync.simps [simp del]

text \<open>
  The queue when a call of \<open>add\<close> returns. With persistence off the body of
  \<open>add\<close> has no \<open>await\<close>, so it runs to its end within the call; when it has
  called \<open>start\<close> (a loop more than before), the first passes of the new loop have
  run too. \<open>TaskQueue_add\<close> is the queue at the call of \<open>processQueue\<close>.
\<close>

definition add_returns :: "QueueConfig \<Rightarrow> (Task \<times> Env) list \<Rightarrow> nat \<Rightarrow> TaskQueue \<Rightarrow> error option \<times> TaskQueue" where
  "add_returns config ts now s =
     (case TaskQueue_add config ts s of
        (Some e, s') \<Rightarrow> (Some e, s')
      | (None, s') \<Rightarrow>
          (None, if loops s' = loops s then s' else snd (processQueue_sync config now s')))"


text \<open>
  The statuses a task has shown: every assignment to \<open>status\<close> in \<open>add\<close>,
  \<open>processTask\<close> and \<open>handleTaskError\<close> is followed by an emit that passes the
  task, so the events about a task list its statuses in order.
\<close>

fun event_task :: "TaskQueue_event \<Rightarrow> Task option" where
  "event_task (Ev_taskAdded t) = Some t"
| "event_task (Ev_taskStarted t) = Some t"
| "event_task (Ev_taskCompleted t r) = Some t"
| "event_task (Ev_taskError t e) = Some t"
| "event_task (Ev_taskRetrying t d n) = Some t"
| "event_task (Ev_taskFailed t e) = Some t"
| "event_task _ = None"

definition status_trace :: "string option \<Rightarrow> TaskQueue_event list \<Rightarrow> TaskStatus option list" where
  "status_trace i evs =
     remdups_adj (map status (filter (\<lambda>t. task_id t = i) (List.map_filter event_task evs)))"

text \<open>The configuration the repository's tests construct their queue with.\<close>

definition test_config :: QueueConfig where
  "test_config =
     \<lparr>concurrency = 2, maxQueueSize = 100, enableDeadLetter = True, maxRetries = 3,
      retryDelay = 100, timeout = 5000\<rparr>"

text \<open>The small queue of the tests' queue-full case.\<close>

definition small_config :: QueueConfig where
  "small_config =
     \<lparr>concurrency = 1, maxQueueSize = 2, enableDeadLetter = False, maxRetries = 1,
      retryDelay = 100, timeout = 5000\<rparr>"

text \<open>The same queue with a single attempt per task.\<close>

definition one_try_config :: QueueConfig where
  "one_try_config = test_config\<lparr>maxRetries := 1\<rparr>"

definition test_env :: Env where
  "test_env = \<lparr>env_now = 0, env_rnd = ''0-abc''\<rparr>"

section \<open>CircuitBreaker (concurrency/CircuitBreaker.ts)\<close>

datatype CircuitState = CLOSED | OPEN | HALF_OPEN

record CircuitBreakerConfig =
  failureThreshold :: nat
  successThreshold :: nat
  cb_timeout :: nat
  monitoringPeriod :: "nat option"
  halfOpenMaxAttempts :: "nat option"
  resetTimeout :: "nat option"

record CircuitMetrics =
  totalRequests :: nat
  successfulRequests :: nat
  failedRequests :: nat
  consecutiveFailures :: nat
  consecutiveSuccesses :: nat
  lastFailureTime :: "nat option"
  lastSuccessTime :: "nat option"
  stateChanges :: nat


text \<open>
  Timers: \<open>setTimeout\<close> returns a fresh handle and leaves the callback pending with its
  delay; \<open>clearTimeout\<close> drops the handle's callback if it is still pending. The two
  callbacks the class schedules are the move to HALF_OPEN and the reset of the counters.
  The breaker's emits are left out of the model: its listeners are taken to return.
\<close>

datatype TimerCallback = ToHalfOpen | ResetCounters

record CircuitBreaker =
  cb_config :: CircuitBreakerConfig
  cb_state :: CircuitState
  cb_metrics :: CircuitMetrics
  openTimer :: "nat option"
  resetTimer :: "nat option"
  halfOpenAttempts :: nat
  pendingTimers :: "(nat \<times> TimerCallback \<times> nat) list"
  nextHandle :: nat

definition setTimeout :: "TimerCallback \<Rightarrow> nat \<Rightarrow> CircuitBreaker \<Rightarrow> nat \<times> CircuitBreaker" where
  "setTimeout cb delay b =
     (nextHandle b,
      b\<lparr>pendingTimers := pendingTimers b @ [(nextHandle b, cb, delay)],
        nextHandle := nextHandle b + 1\<rparr>)"

definition clearTimeout :: "nat \<Rightarrow> CircuitBreaker \<Rightarrow> CircuitBreaker" where
  "clearTimeout h b = b\<lparr>pendingTimers := filter (\<lambda>t. fst t \<noteq> h) (pendingTimers b)\<rparr>"


text \<open>
  \<open>this.config.halfOpenMaxAttempts!\<close> and \<open>this.config.resetTimeout\<close> as the
  methods read them; a field the constructor has not filled compares as \<open>undefined\<close>
  does, and \<open>n >= undefined\<close> is false.
\<close>

definition halfOpen_limit_reached :: "CircuitBreaker \<Rightarrow> bool" where
  "halfOpen_limit_reached b =
     (case halfOpenMaxAttempts (cb_config b) of
        None \<Rightarrow> False
      | Some m \<Rightarrow> halfOpenAttempts b \<ge> m)"

definition scheduleReset :: "CircuitBreaker \<Rightarrow> CircuitBreaker" where
  "scheduleReset b =
     (let b1 = (case resetTimer b of Some h \<Rightarrow> clearTimeout h b | None \<Rightarrow> b);
          (h, b2) = setTimeout ResetCounters
                      (case resetTimeout (cb_config b1) of None \<Rightarrow> 0 | Some d \<Rightarrow> d) b1
      in b2\<lparr>resetTimer := Some h\<rparr>)"

definition CircuitBreaker_open :: "CircuitBreaker \<Rightarrow> CircuitBreaker" where
  "CircuitBreaker_open b =
     (if cb_state b = OPEN then b
      else
        let b1 = b\<lparr>cb_state := OPEN,
                   cb_metrics := (cb_metrics b)\<lparr>stateChanges := stateChanges (cb_metrics b) + 1\<rparr>,
                   halfOpenAttempts := 0\<rparr>;
            (h, b2) = setTimeout ToHalfOpen (cb_timeout (cb_config b1)) b1
        in b2\<lparr>openTimer := Some h\<rparr>)"


definition CircuitBreaker_close :: "CircuitBreaker \<Rightarrow> CircuitBreaker" where
  "CircuitBreaker_close b =
     (if cb_state b = CLOSED then b
      else
        scheduleReset
          (b\<lparr>cb_state := CLOSED,
             cb_metrics := (cb_metrics b)\<lparr>stateChanges := stateChanges (cb_metrics b) + 1,
                                          consecutiveFailures := 0\<rparr>,
             halfOpenAttempts := 0\<rparr>))"

definition onSuccess :: "nat \<Rightarrow> CircuitBreaker \<Rightarrow> CircuitBreaker" where
  "onSuccess now b =
     (let b1 = b\<lparr>cb_metrics := (cb_metrics b)\<lparr>
                  successfulRequests := successfulRequests (cb_metrics b) + 1,
                  consecutiveSuccesses := consecutiveSuccesses (cb_metrics b) + 1,
                  consecutiveFailures := 0,
                  lastSuccessTime := Some now\<rparr>\<rparr>
      in if cb_state b1 = HALF_OPEN then
           (if consecutiveSuccesses (cb_metrics b1) \<ge> successThreshold (cb_config b1)
            then CircuitBreaker_close b1 else b1)
         else b1)"

definition onFailure :: "nat \<Rightarrow> CircuitBreaker \<Rightarrow> CircuitBreaker" where
  "onFailure now b =
     (let b1 = b\<lparr>cb_metrics := (cb_metrics b)\<lparr>
                  failedRequests := failedRequests (cb_metrics b) + 1,
                  consecutiveFailures := consecutiveFailures (cb_metrics b) + 1,
                  consecutiveSuccesses := 0,
                  lastFailureTime := Some now\<rparr>\<rparr>
      in if cb_state b1 = HALF_OPEN then CircuitBreaker_open b1
         else if cb_state b1 = CLOSED then
           (if consecutiveFailures (cb_metrics b1) \<ge> failureThreshold (cb_config b1)
            then CircuitBreaker_open b1 else b1)
         else b1)"

text \<open>
  \<open>execute\<close> up to the call of \<open>fn\<close>: \<open>Inl\<close> is the error thrown before any
  call, \<open>Inr\<close> the breaker as it stands when \<open>fn\<close> is called.
\<close>

definition execute_admit :: "CircuitBreaker \<Rightarrow> error + CircuitBreaker" where
  "execute_admit b =
     (if cb_state b = OPEN then Inl (CircuitBreakerOpenError ''Circuit breaker is OPEN'')
      else if cb_state b = HALF_OPEN \<and> halfOpen_limit_reached b
      then Inl (CircuitBreakerOpenError ''Circuit breaker HALF_OPEN limit reached'')
      else
        let b1 = (if cb_state b = HALF_OPEN
                  then b\<lparr>halfOpenAttempts := halfOpenAttempts b + 1\<rparr> else b)
        in Inr (b1\<lparr>cb_metrics := (cb_metrics b1)\<lparr>totalRequests := totalRequests (cb_metrics b1) + 1\<rparr>\<rparr>))"

text \<open>
  A whole call of \<open>execute\<close> whose \<open>fn\<close> settles before anything else happens to
  the breaker. \<open>fn\<close> is given by how it settles (\<open>Inl\<close> a rejection, \<open>Inr\<close> a
  value); the result is what \<open>execute\<close> settles with, whether \<open>fn\<close> was called,
  and the breaker afterwards.
\<close>

definition execute :: "nat \<Rightarrow> error + 'a \<Rightarrow> CircuitBreaker \<Rightarrow> (error + 'a) \<times> bool \<times> CircuitBreaker" where
  "execute now fn b =
     (case execute_admit b of
        Inl e \<Rightarrow> (Inl e, False, b)
      | Inr b1 \<Rightarrow>
          (case fn of
             Inr v \<Rightarrow> (Inr v, True, onSuccess now b1)
           | Inl e \<Rightarrow> (Inl e, True, onFailure now b1)))"





text \<open>Calls of \<open>execute\<close> one after the other, each settled before the next begins.\<close>

fun executes :: "nat \<Rightarrow> (error + 'a) list \<Rightarrow> CircuitBreaker \<Rightarrow> CircuitBreaker" where
  "executes now [] b = b"
| "executes now (fn # fns) b = executes now fns (snd (snd (execute now fn b)))"









section \<open>BackoffStrategy (strategies/BackoffStrategy.ts)\<close>

text \<open>
  JavaScript numbers are modelled as real numbers: the arithmetic below is exact, where
  the source rounds to a double.
\<close>

datatype BackoffType = EXPONENTIAL | LINEAR | CONSTANT | FIBONACCI | DECORRELATED_JITTER

record BackoffConfig =
  backoff_type :: BackoffType
  initialDelay :: real
  maxDelay :: real
  multiplier :: "real option"
  increment :: "real option"
  jitter :: "bool option"
  jitterFactor :: "real option"

record BackoffStrategy =
  backoff_config :: BackoffConfig
  attempt :: nat
  fibSequence :: "real list"


text \<open>
  A field read with \<open>!\<close>. The constructor has filled it; \<open>undefined\<close> in arithmetic
  would give \<open>NaN\<close>, which has no counterpart here, so the fallback is the default.
\<close>

definition exponentialBackoff :: "BackoffStrategy \<Rightarrow> real" where
  "exponentialBackoff b =
     initialDelay (backoff_config b) *
       (case multiplier (backoff_config b) of None \<Rightarrow> 2 | Some m \<Rightarrow> m) ^ (attempt b - 1)"

definition linearBackoff :: "BackoffStrategy \<Rightarrow> real" where
  "linearBackoff b =
     initialDelay (backoff_config b) +
       (case increment (backoff_config b) of None \<Rightarrow> 1000 | Some i \<Rightarrow> i) * (real (attempt b) - 1)"

text \<open>
  The \<open>while\<close> loop that extends \<open>fibSequence\<close> up to index \<open>attempt\<close>. The
  sequence starts as \<open>[0, 1]\<close> and only grows, so both indices are in range.
\<close>

function fib_extend :: "nat \<Rightarrow> real list \<Rightarrow> real list" where
  "fib_extend n fs =
     (if length fs \<le> n
      then fib_extend n (fs @ [fs ! (length fs - 1) + fs ! (length fs - 2)])
      else fs)"
  by pat_completeness auto
termination
  by (relation "measure (\<lambda>(n, fs). n + 1 - length fs)") auto

declare fib_extend.simps [simp del]

definition fibonacciBackoff :: "BackoffStrategy \<Rightarrow> real \<times> BackoffStrategy" where
  "fibonacciBackoff b =
     (let fs = fib_extend (attempt b) (fibSequence b)
      in (initialDelay (backoff_config b) * fs ! attempt b, b\<lparr>fibSequence := fs\<rparr>))"

text \<open>\<open>rnd\<close> stands for the value of \<open>Math.random()\<close>.\<close>

definition decorrelatedJitterBackoff :: "real \<Rightarrow> BackoffStrategy \<Rightarrow> real" where
  "decorrelatedJitterBackoff rnd b =
     (let previousDelay = (if attempt b = 1 then initialDelay (backoff_config b)
                           else initialDelay (backoff_config b) * 2 ^ (attempt b - 2));
          mn = initialDelay (backoff_config b);
          mx = previousDelay * 3
      in rnd * (mx - mn) + mn)"

definition applyJitter :: "real \<Rightarrow> BackoffStrategy \<Rightarrow> real \<Rightarrow> real" where
  "applyJitter rnd b delay =
     (let jitterAmount = delay * (case jitterFactor (backoff_config b) of None \<Rightarrow> 1 / 10 | Some f \<Rightarrow> f);
          randomJitter = (rnd * 2 - 1) * jitterAmount
      in delay + randomJitter)"

text \<open>
  \<open>next\<close>, with the two values \<open>Math.random()\<close> may be asked for: \<open>rnd1\<close> by the
  decorrelated strategy, \<open>rnd2\<close> by the jitter.
\<close>

definition BackoffStrategy_next :: "real \<times> real \<Rightarrow> BackoffStrategy \<Rightarrow> real \<times> BackoffStrategy" where
  "BackoffStrategy_next rnd b =
     (let b1 = b\<lparr>attempt := attempt b + 1\<rparr>;
          (delay, b2) =
             (case backoff_type (backoff_config b1) of
                EXPONENTIAL \<Rightarrow> (exponentialBackoff b1, b1)
              | LINEAR \<Rightarrow> (linearBackoff b1, b1)
              | CONSTANT \<Rightarrow> (initialDelay (backoff_config b1), b1)
              | FIBONACCI \<Rightarrow> fibonacciBackoff b1
              | DECORRELATED_JITTER \<Rightarrow> (decorrelatedJitterBackoff (fst rnd) b1, b1));
          delay' = (if jitter (backoff_config b2) = Some True
                    then applyJitter (snd rnd) b2 delay else delay)
      in (min delay' (maxDelay (backoff_config b2)), b2))"

definition BackoffStrategy_reset :: "BackoffStrategy \<Rightarrow> BackoffStrategy" where
  "BackoffStrategy_reset b = b\<lparr>attempt := 0\<rparr>"

text \<open>Successive calls of \<open>next\<close>, one per pair of random values; the delays in order.\<close>

fun next_calls :: "(real \<times> real) list \<Rightarrow> BackoffStrategy \<Rightarrow> real list \<times> BackoffStrategy" where
  "next_calls [] b = ([], b)"
| "next_calls (rnd # rnds) b =
     (let (delay, b1) = BackoffStrategy_next rnd b;
          (delays, b2) = next_calls rnds b1
      in (delay # delays, b2))"

definition calculateSequence :: "(real \<times> real) list \<Rightarrow> BackoffStrategy \<Rightarrow> real list \<times> BackoffStrategy" where
  "calculateSequence rnds b =
     (let (sequence, b1) = next_calls rnds (BackoffStrategy_reset b)
      in (sequence, BackoffStrategy_reset b1))"


section \<open>RateLimiter (concurrency/RateLimiter.ts)\<close>

datatype Strategy = fixed_window | sliding_window | token_bucket | leaky_bucket

record AdaptiveConfig =
  adaptive_enabled :: bool
  targetErrorRate :: real
  increaseStep :: real
  decreaseStep :: real
  minRate :: real
  maxRate :: real

record RateLimitConfig =
  requestsPerSecond :: "real option"
  requestsPerMinute :: "real option"
  requestsPerHour :: "real option"
  requestsPerDay :: "real option"
  burst :: "real option"
  strategy :: "Strategy option"
  adaptive :: "AdaptiveConfig option"

record RateLimitWindow =
  window_start :: int
  window_count :: nat
  window_requests :: "int list"

record TokenBucket =
  tokens :: real
  tb_capacity :: real
  refillRate :: real
  lastRefill :: int

text \<open>
  An entry of the leaky bucket's queue is the caller's \<open>resolve\<close> and a timestamp; the
  caller is named by a number.
\<close>

record LeakyBucket =
  queue :: "(nat \<times> int) list"
  capacity :: real
  leakRate :: real
  lastLeak :: int

record AdaptiveMetrics =
  successCount :: nat
  errorCount :: nat
  am_totalRequests :: nat
  lastAdjustment :: int

record RateLimiter =
  rl_config :: RateLimitConfig
  windows :: "string \<rightharpoonup> RateLimitWindow"
  tokenBucket :: "TokenBucket option"
  leakyBucket :: "LeakyBucket option"
  currentRate :: real
  adaptiveMetrics :: AdaptiveMetrics

definition truthy_num :: "real option \<Rightarrow> bool" where
  "truthy_num x = (case x of None \<Rightarrow> False | Some v \<Rightarrow> v \<noteq> 0)"

text \<open>The number in an optional field the caller has found truthy.\<close>

definition num :: "real option \<Rightarrow> real" where
  "num x = (case x of None \<Rightarrow> 0 | Some v \<Rightarrow> v)"

definition initializeTokenBucket :: "int \<Rightarrow> RateLimiter \<Rightarrow> RateLimiter" where
  "initializeTokenBucket now l =
     (let cap = (if truthy_num (burst (rl_config l)) then num (burst (rl_config l))
                 else real_of_int \<lceil>currentRate l * 2\<rceil>)
      in l\<lparr>tokenBucket := Some \<lparr>tokens = cap, tb_capacity = cap,
                                 refillRate = currentRate l, lastRefill = now\<rparr>\<rparr>)"

definition initializeLeakyBucket :: "int \<Rightarrow> RateLimiter \<Rightarrow> RateLimiter" where
  "initializeLeakyBucket now l =
     (let cap = (if truthy_num (burst (rl_config l)) then num (burst (rl_config l))
                 else real_of_int \<lceil>currentRate l * 10\<rceil>)
      in l\<lparr>leakyBucket := Some \<lparr>queue = [], capacity = cap,
                                 leakRate = currentRate l, lastLeak = now\<rparr>\<rparr>)"

definition initializeStrategy :: "int \<Rightarrow> RateLimiter \<Rightarrow> RateLimiter" where
  "initializeStrategy now l =
     (case strategy (rl_config l) of
        Some token_bucket \<Rightarrow> initializeTokenBucket now l
      | Some leaky_bucket \<Rightarrow> initializeLeakyBucket now l
      | _ \<Rightarrow> l)"

definition RateLimiter_new :: "RateLimitConfig \<Rightarrow> int \<Rightarrow> RateLimiter" where
  "RateLimiter_new config now =
     initializeStrategy now
       \<lparr>rl_config = config,
        windows = Map.empty,
        tokenBucket = None,
        leakyBucket = None,
        currentRate =
          (if truthy_num (requestsPerSecond config)
           then (case requestsPerSecond config of Some r \<Rightarrow> r | None \<Rightarrow> 1)
           else if truthy_num (requestsPerMinute config)
           then (case requestsPerMinute config of Some r \<Rightarrow> r / 60 | None \<Rightarrow> 1)
           else 1),
        adaptiveMetrics = \<lparr>successCount = 0, errorCount = 0, am_totalRequests = 0,
                            lastAdjustment = now\<rparr>\<rparr>"

definition getWindowSize :: "RateLimiter \<Rightarrow> int" where
  "getWindowSize l =
     (if truthy_num (requestsPerSecond (rl_config l)) then 1000
      else if truthy_num (requestsPerMinute (rl_config l)) then 60000
      else if truthy_num (requestsPerHour (rl_config l)) then 3600000
      else if truthy_num (requestsPerDay (rl_config l)) then 86400000
      else 1000)"

definition getLimit :: "int \<Rightarrow> RateLimiter \<Rightarrow> int" where
  "getLimit windowSize l =
     (let seconds = real_of_int windowSize / 1000
      in if truthy_num (requestsPerSecond (rl_config l))
         then \<lceil>num (requestsPerSecond (rl_config l)) * seconds\<rceil>
         else if truthy_num (requestsPerMinute (rl_config l))
         then \<lceil>num (requestsPerMinute (rl_config l)) * seconds / 60\<rceil>
         else if truthy_num (requestsPerHour (rl_config l))
         then \<lceil>num (requestsPerHour (rl_config l)) * seconds / 3600\<rceil>
         else if truthy_num (requestsPerDay (rl_config l))
         then \<lceil>num (requestsPerDay (rl_config l)) * seconds / 86400\<rceil>
         else 1)"

text \<open>
  One attempt of \<open>acquire\<close>. The window and token strategies end an attempt that finds
  no room with \<open>await this.sleep(waitTime)\<close> and a call of themselves: \<open>Sleep\<close> is
  that wait, after which the caller attempts again (\<open>None\<close> is the wait the source
  computes from \<open>Math.min()\<close> of no arguments). \<open>Enqueued\<close> is the promise the
  leaky bucket leaves for its leak process to resolve; \<open>Throws\<close> is a rejection.
\<close>

datatype AcquireOutcome = Granted | Sleep "real option" | Enqueued | Throws error

definition acquireFixedWindow :: "string \<Rightarrow> int \<Rightarrow> RateLimiter \<Rightarrow> AcquireOutcome \<times> RateLimiter" where
  "acquireFixedWindow key now l =
     (let windowSize = getWindowSize l;
          windowStart = (now div windowSize) * windowSize;
          fresh = \<lparr>window_start = windowStart, window_count = 0, window_requests = []\<rparr>;
          window = (case windows l key of
                      None \<Rightarrow> fresh
                    | Some w \<Rightarrow> if window_start w \<noteq> windowStart then fresh else w);
          limit = getLimit windowSize l
      in if int (window_count window) \<ge> limit
         then (Sleep (Some (real_of_int (windowStart + windowSize - now))),
               l\<lparr>windows := (windows l)(key \<mapsto> window)\<rparr>)
         else (Granted,
               l\<lparr>windows := (windows l)(key \<mapsto> window\<lparr>window_count := window_count window + 1\<rparr>)\<rparr>))"

definition acquireSlidingWindow :: "string \<Rightarrow> int \<Rightarrow> RateLimiter \<Rightarrow> AcquireOutcome \<times> RateLimiter" where
  "acquireSlidingWindow key now l =
     (let windowSize = getWindowSize l;
          windowStart = now - windowSize;
          window0 = (case windows l key of
                       None \<Rightarrow> \<lparr>window_start = now, window_count = 0, window_requests = []\<rparr>
                     | Some w \<Rightarrow> w);
          kept = filter (\<lambda>t. t > windowStart) (window_requests window0);
          window = window0\<lparr>window_requests := kept, window_count := length kept\<rparr>;
          limit = getLimit windowSize l
      in if int (window_count window) \<ge> limit
         then (Sleep (case kept of
                        [] \<Rightarrow> None
                      | t # ts \<Rightarrow> Some (real_of_int (fold min ts t + windowSize - now + 1))),
               l\<lparr>windows := (windows l)(key \<mapsto> window)\<rparr>)
         else (Granted,
               l\<lparr>windows := (windows l)(key \<mapsto>
                    window\<lparr>window_requests := kept @ [now],
                           window_count := window_count window + 1\<rparr>)\<rparr>))"

definition acquireTokenBucket :: "int \<Rightarrow> RateLimiter \<Rightarrow> AcquireOutcome \<times> RateLimiter" where
  "acquireTokenBucket now l =
     (case tokenBucket l of
        None \<Rightarrow> (Throws (Error ''Token bucket not initialized''), l)
      | Some tb \<Rightarrow>
          let elapsed = real_of_int (now - lastRefill tb) / 1000;
              tokensToAdd = elapsed * refillRate tb;
              tb1 = tb\<lparr>tokens := min (tb_capacity tb) (tokens tb + tokensToAdd), lastRefill := now\<rparr>
          in if tokens tb1 \<ge> 1
             then (Granted, l\<lparr>tokenBucket := Some (tb1\<lparr>tokens := tokens tb1 - 1\<rparr>)\<rparr>)
             else (Sleep (Some ((1 - tokens tb1) / refillRate tb1 * 1000)),
                   l\<lparr>tokenBucket := Some tb1\<rparr>))"

definition acquireLeakyBucket :: "nat \<Rightarrow> int \<Rightarrow> RateLimiter \<Rightarrow> AcquireOutcome \<times> RateLimiter" where
  "acquireLeakyBucket caller now l =
     (case leakyBucket l of
        None \<Rightarrow> (Throws (Error ''Leaky bucket not initialized''), l)
      | Some lb \<Rightarrow>
          if real (length (queue lb)) \<ge> capacity lb
          then (Throws (Error ''Rate limit exceeded: bucket is full''), l)
          else (Enqueued, l\<lparr>leakyBucket := Some (lb\<lparr>queue := queue lb @ [(caller, now)]\<rparr>)\<rparr>))"

definition acquire :: "string \<Rightarrow> nat \<Rightarrow> int \<Rightarrow> RateLimiter \<Rightarrow> AcquireOutcome \<times> RateLimiter" where
  "acquire key caller now l =
     (let l1 = l\<lparr>adaptiveMetrics := (adaptiveMetrics l)\<lparr>
                  am_totalRequests := am_totalRequests (adaptiveMetrics l) + 1\<rparr>\<rparr>
      in case strategy (rl_config l1) of
           Some token_bucket \<Rightarrow> acquireTokenBucket now l1
         | Some leaky_bucket \<Rightarrow> acquireLeakyBucket caller now l1
         | Some sliding_window \<Rightarrow> acquireSlidingWindow key now l1
         | _ \<Rightarrow> acquireFixedWindow key now l1)"

text \<open>
  A later attempt of a caller that slept: the strategy's method calls itself, not
  \<open>acquire\<close>, so the request is not counted again. The leaky bucket never
  sleeps: its callers have no later attempt and stay enqueued.
\<close>

definition acquire_again :: "string \<Rightarrow> int \<Rightarrow> RateLimiter \<Rightarrow> AcquireOutcome \<times> RateLimiter" where
  "acquire_again key now l =
     (case strategy (rl_config l) of
        Some token_bucket \<Rightarrow> acquireTokenBucket now l
      | Some leaky_bucket \<Rightarrow> (Enqueued, l)
      | Some sliding_window \<Rightarrow> acquireSlidingWindow key now l
      | _ \<Rightarrow> acquireFixedWindow key now l)"

text \<open>
  The interval callbacks: the token refill and the leak, which resolves the callers at
  the head of the queue (returned in order).
\<close>

definition token_refill :: "int \<Rightarrow> RateLimiter \<Rightarrow> RateLimiter" where
  "token_refill now l =
     (case tokenBucket l of
        None \<Rightarrow> l
      | Some tb \<Rightarrow>
          let elapsed = real_of_int (now - lastRefill tb) / 1000;
              tokensToAdd = elapsed * refillRate tb
          in l\<lparr>tokenBucket := Some (tb\<lparr>tokens := min (tb_capacity tb) (tokens tb + tokensToAdd),
                                        lastRefill := now\<rparr>)\<rparr>)"

definition bucket_leak :: "int \<Rightarrow> RateLimiter \<Rightarrow> nat list \<times> RateLimiter" where
  "bucket_leak now l =
     (case leakyBucket l of
        None \<Rightarrow> ([], l)
      | Some lb \<Rightarrow>
          if queue lb = [] then ([], l)
          else
            let elapsed = real_of_int (now - lastLeak lb) / 1000;
                requestsToLeak = nat \<lfloor>elapsed * leakRate lb\<rfloor>
            in (map fst (take requestsToLeak (queue lb)),
                l\<lparr>leakyBucket := Some (lb\<lparr>queue := drop requestsToLeak (queue lb),
                                           lastLeak := now\<rparr>)\<rparr>))"

definition adjustAdaptiveRate :: "int \<Rightarrow> RateLimiter \<Rightarrow> RateLimiter" where
  "adjustAdaptiveRate now l =
     (case adaptive (rl_config l) of
        None \<Rightarrow> l
      | Some config \<Rightarrow>
          if am_totalRequests (adaptiveMetrics l) = 0 then l
          else
            let errorRate = real (errorCount (adaptiveMetrics l)) /
                              real (am_totalRequests (adaptiveMetrics l));
                rate = (if errorRate > targetErrorRate config
                        then max (minRate config) (currentRate l - decreaseStep config)
                        else if errorRate < targetErrorRate config * (1 / 2)
                        then min (maxRate config) (currentRate l + increaseStep config)
                        else currentRate l)
            in l\<lparr>currentRate := rate,
                  adaptiveMetrics := \<lparr>successCount = 0, errorCount = 0, am_totalRequests = 0,
                                      lastAdjustment = now\<rparr>,
                  tokenBucket := map_option (\<lambda>tb. tb\<lparr>refillRate := rate\<rparr>) (tokenBucket l),
                  leakyBucket := map_option (\<lambda>lb. lb\<lparr>leakRate := rate\<rparr>) (leakyBucket l)\<rparr>)"

definition recordSuccess :: "RateLimiter \<Rightarrow> RateLimiter" where
  "recordSuccess l =
     l\<lparr>adaptiveMetrics := (adaptiveMetrics l)\<lparr>successCount := successCount (adaptiveMetrics l) + 1\<rparr>\<rparr>"

definition recordError :: "RateLimiter \<Rightarrow> RateLimiter" where
  "recordError l =
     l\<lparr>adaptiveMetrics := (adaptiveMetrics l)\<lparr>errorCount := errorCount (adaptiveMetrics l) + 1\<rparr>\<rparr>"

definition RateLimiter_reset :: "string option \<Rightarrow> RateLimiter \<Rightarrow> RateLimiter" where
  "RateLimiter_reset key l =
     (let ws = (case key of
                  None \<Rightarrow> Map.empty
                | Some k \<Rightarrow> if k = [] then Map.empty else (windows l)(k := None))
      in l\<lparr>windows := ws,
            tokenBucket := map_option (\<lambda>tb. tb\<lparr>tokens := tb_capacity tb\<rparr>) (tokenBucket l),
            leakyBucket := map_option (\<lambda>lb. lb\<lparr>queue := []\<rparr>) (leakyBucket l)\<rparr>)"

text \<open>The limiter as a machine: calls of its methods and ticks of its intervals.\<close>

datatype RateLimiter_action =
    Acquire string nat int
  | AcquireAgain string int
  | Refill int
  | Leak int
  | Adjust int
  | RecordSuccess
  | RecordError
  | Reset "string option"

fun rl_step :: "RateLimiter_action \<Rightarrow> RateLimiter \<Rightarrow> RateLimiter" where
  "rl_step (Acquire key caller now) l = snd (acquire key caller now l)"
| "rl_step (AcquireAgain key now) l = snd (acquire_again key now l)"
| "rl_step (Refill now) l = token_refill now l"
| "rl_step (Leak now) l = snd (bucket_leak now l)"
| "rl_step (Adjust now) l = adjustAdaptiveRate now l"
| "rl_step RecordSuccess l = recordSuccess l"
| "rl_step RecordError l = recordError l"
| "rl_step (Reset key) l = RateLimiter_reset key l"

definition rl_run :: "RateLimiter_action list \<Rightarrow> RateLimiter \<Rightarrow> RateLimiter" where
  "rl_run acts l = foldl (\<lambda>l a. rl_step a l) l acts"

text \<open>Whether an attempt ended in a rejection.\<close>

fun fails :: "AcquireOutcome \<Rightarrow> bool" where
  "fails (Throws e) = True"
| "fails _ = False"

text \<open>A leaky bucket of one request per second that holds two callers, and a token bucket.\<close>

definition leaky_config :: RateLimitConfig where
  "leaky_config =
     \<lparr>requestsPerSecond = Some 1, requestsPerMinute = None, requestsPerHour = None,
      requestsPerDay = None, burst = Some 2, strategy = Some leaky_bucket, adaptive = None\<rparr>"

definition token_config :: RateLimitConfig where
  "token_config = leaky_config\<lparr>strategy := Some token_bucket\<rparr>"


section \<open>Properties of PriorityQueue\<close>

lemma drain_getAll: "drain q = getAll q"
proof (induction q rule: drain.induct)
  case (1 q)
  have d: "distinct priorities" by (simp add: priorities_def)
  obtain r q' where dq: "dequeue q = (r, q')" by (cases "dequeue q")
  note spec = dequeue_scan_spec [OF d dq [unfolded dequeue_def]]
  show ?case
  proof (cases r)
    case None
    with spec dq show ?thesis by (simp add: getAll_def drain.simps [of q])
  next
    case (Some t)
    with "1.IH" [OF dq [symmetric]] have "drain q' = getAll q'" by simp
    with spec dq Some show ?thesis by (simp add: getAll_def drain.simps [of q])
  qed
qed

lemma tier_enqueue:
  "tier (enqueue t q) p =
     (if p = effective_priority t
      then tier q p @ [t\<lparr>priority := Some (effective_priority t)\<rparr>] else tier q p)"
  by (auto simp: enqueue_def Let_def tier_def split: option.splits)

lemma tier_enqueue_all:
  "tier (foldl (\<lambda>acc t. enqueue t acc) q ts) p =
     tier q p @ map (\<lambda>t. t\<lparr>priority := Some p\<rparr>) (filter (\<lambda>t. effective_priority t = p) ts)"
  by (induction ts arbitrary: q) (auto simp: tier_enqueue)

lemma tier_new: "tier PriorityQueue_new p = []"
  by (cases p) (simp_all add: tier_def PriorityQueue_new_def priorities_def)

text \<open>
  C3. Whatever tasks are enqueued into a new queue, in whatever order, repeated
  \<open>dequeue\<close> returns them tier by tier in the order CRITICAL, HIGH, NORMAL, LOW (a
  task without a priority counting as NORMAL, and leaving the queue with that priority
  written into it), and within each tier in the order they were enqueued.
\<close>

theorem priority_then_fifo:
  "drain (foldl (\<lambda>acc t. enqueue t acc) PriorityQueue_new ts) =
     concat (map (\<lambda>p. map (\<lambda>t. t\<lparr>priority := Some p\<rparr>)
                          (filter (\<lambda>t. effective_priority t = p) ts)) priorities)"
  by (simp add: drain_getAll getAll_def priorities_def tier_enqueue_all tier_new)

theorem priority_then_fifo_witness:
  "drain (foldl (\<lambda>acc t. enqueue t acc) PriorityQueue_new
     [task_literal (Some ''low-1'') (Some LOW),
      task_literal (Some ''critical-1'') (Some CRITICAL),
      task_literal (Some ''default-1'') None,
      task_literal (Some ''high-1'') (Some HIGH),
      task_literal (Some ''critical-2'') (Some CRITICAL)]) =
     [task_literal (Some ''critical-1'') (Some CRITICAL),
      task_literal (Some ''critical-2'') (Some CRITICAL),
      task_literal (Some ''high-1'') (Some HIGH),
      task_literal (Some ''default-1'') (Some NORMAL),
      task_literal (Some ''low-1'') (Some LOW)]"
  by (simp only: priority_then_fifo)
     (simp add: priorities_def effective_priority_def task_literal_def)


section \<open>Properties of TaskQueue\<close>

lemma size_enqueue: "PriorityQueue_size (enqueue t q) = Suc (PriorityQueue_size q)"
  by (cases "effective_priority t") (simp_all add: PriorityQueue_size_def priorities_def tier_enqueue)

lemma add_each_error:
  "fst (add_each config ts s) =
     (if ts \<noteq> [] \<and> maxQueueSize config < PriorityQueue_size (priorityQueue s) + length ts
      then Some (Error ''Queue is full'') else None)"
proof (induction ts arbitrary: s)
  case Nil
  show ?case by simp
next
  case (Cons a ts)
  obtain t env where a: "a = (t, env)" by (cases a)
  show ?case
    unfolding a by (auto simp: Cons.IH add_one_def size_enqueue)
qed

lemma add_each_activeTasks: "activeTasks (snd (add_each config ts s)) = activeTasks s"
proof (induction ts arbitrary: s)
  case Nil
  show ?case by simp
next
  case (Cons a ts)
  obtain t env where a: "a = (t, env)" by (cases a)
  show ?case unfolding a by (simp add: Cons.IH add_one_def)
qed

lemma add_activeTasks: "activeTasks (snd (TaskQueue_add config ts s)) = activeTasks s"
proof -
  obtain e s' where r: "add_each config ts s = (e, s')" by (cases "add_each config ts s")
  with add_each_activeTasks [of config ts s] have "activeTasks s' = activeTasks s" by simp
  with r show ?thesis by (cases e) (simp_all add: TaskQueue_add_def start_def)
qed

lemma handleTaskError_activeTasks: "activeTasks (handleTaskError config now t err s) = activeTasks s"
  by (simp add: handleTaskError_def Let_def)

lemma length_set_add: "length (set_add x xs) \<le> Suc (length xs)"
  by (simp add: set_add_def)

lemma length_set_delete: "length (set_delete x xs) \<le> length xs"
  by (simp add: set_delete_def removeAll_filter_not_eq)

lemma pass_activeTasks:
  "length (activeTasks s) \<le> concurrency config \<Longrightarrow>
   length (activeTasks (snd (processQueue_pass config now s))) \<le> concurrency config"
  using length_set_add [of _ "activeTasks s"]
  by (auto simp: processQueue_pass_def processTask_begin_def Let_def split: prod.splits option.splits
      intro: order_trans [OF length_set_add])

lemma step_activeTasks:
  assumes "length (activeTasks s) \<le> concurrency config"
  shows "length (activeTasks (step config a s)) \<le> concurrency config"
proof (cases a)
  case (Add ts)
  with assms show ?thesis by (simp add: add_activeTasks)
next
  case (LoopPass now)
  with assms show ?thesis using pass_activeTasks by simp
next
  case (Resolved i r now)
  with assms show ?thesis
    by (auto simp: processTask_resolved_def Let_def intro: order_trans [OF length_set_delete])
next
  case (Rejected i err now)
  with assms show ?thesis
    by (auto simp: processTask_rejected_def Let_def handleTaskError_activeTasks
        intro: order_trans [OF length_set_delete])
qed (use assms in \<open>auto simp: start_def pause_def resume_def stop_begin_def stop_end_def
      retry_timer_fired_def updatePriority_def cancel_def cancelTask_def retryFailed_def
      TaskQueue_clear_def Let_def split: option.splits prod.splits bool.splits\<close>)

lemma run_activeTasks:
  "length (activeTasks s) \<le> concurrency config \<Longrightarrow>
   length (activeTasks (run config acts s)) \<le> concurrency config"
  unfolding run_def by (induction acts arbitrary: s) (simp_all add: step_activeTasks)

text \<open>
  What the loop does keep: in every state the queue reaches from its construction, by
  whatever calls, loop passes, settlings and timers, \<open>activeTasks\<close> holds at most
  \<open>concurrency\<close> ids, and a pass of the processing loop that finds
  \<open>concurrency\<close> or more of them sleeps for 50 ms and changes nothing.
\<close>

lemma active_ids_bounded:
  "length (activeTasks (run config acts (TaskQueue_new config))) \<le> concurrency config"
  by (rule run_activeTasks) (simp add: TaskQueue_new_def)

lemma pass_at_capacity:
  "isProcessing s \<Longrightarrow> \<not> isPaused s \<Longrightarrow> concurrency config \<le> length (activeTasks s) \<Longrightarrow>
   processQueue_pass config now s = (Slept 50, s)"
  by (simp add: processQueue_pass_def)

text \<open>
  \<open>activeTasks\<close> is a set of ids, so it counts the tasks in PROCESSING only while
  no two of them share an id: then it holds exactly the ids of the running tasks, and
  their number stays within \<open>concurrency\<close>.
\<close>

definition tracked :: "TaskQueue \<Rightarrow> bool" where
  "tracked s = (distinct (activeTasks s) \<and> set (activeTasks s) = set (map task_id (running s)))"

lemma set_map_remove_nth:
  assumes "distinct (map f xs)" "i < length xs"
  shows "set (map f (take i xs @ drop (Suc i) xs)) = set (map f xs) - {f (xs ! i)}"
proof -
  have xs: "xs = take i xs @ xs ! i # drop (Suc i) xs"
    using assms(2) by (rule id_take_nth_drop)
  have "distinct (map f (take i xs @ xs ! i # drop (Suc i) xs))"
    using assms(1) xs by simp
  then have "f (xs ! i) \<notin> set (map f (take i xs @ drop (Suc i) xs))"
    by auto
  moreover have "set (map f xs) = insert (f (xs ! i)) (set (map f (take i xs @ drop (Suc i) xs)))"
    by (subst xs) auto
  ultimately show ?thesis by auto
qed

lemma add_each_running: "running (snd (add_each config ts s)) = running s"
proof (induction ts arbitrary: s)
  case Nil
  show ?case by simp
next
  case (Cons a ts)
  obtain t env where a: "a = (t, env)" by (cases a)
  show ?case unfolding a by (simp add: Cons.IH add_one_def)
qed

lemma add_running: "running (snd (TaskQueue_add config ts s)) = running s"
proof -
  obtain e s' where r: "add_each config ts s = (e, s')" by (cases "add_each config ts s")
  with add_each_running [of config ts s] have "running s' = running s" by simp
  with r show ?thesis by (cases e) (simp_all add: TaskQueue_add_def start_def)
qed

lemma handleTaskError_running: "running (handleTaskError config now t err s) = running s"
  by (simp add: handleTaskError_def Let_def)

lemma tracked_remove:
  assumes "tracked s" "distinct (map task_id (running s))" "i < length (running s)"
  shows "distinct (set_delete (task_id (running s ! i)) (activeTasks s)) \<and>
     set (set_delete (task_id (running s ! i)) (activeTasks s)) =
     set (map task_id (take i (running s) @ drop (Suc i) (running s)))"
  using assms set_map_remove_nth [of task_id "running s" i]
  by (simp add: tracked_def set_delete_def distinct_removeAll)

lemma tracked_step:
  assumes "tracked s" "distinct (map task_id (running s))"
    "distinct (map task_id (running (step config a s)))"
  shows "tracked (step config a s)"
proof (cases a)
  case (Add ts)
  with assms show ?thesis by (simp add: tracked_def add_activeTasks add_running)
next
  case (LoopPass now)
  show ?thesis
  proof (cases "processQueue_pass config now s")
    case (Pair outcome s')
    show ?thesis
    proof (cases "loops s = 0")
      case True
      with assms LoopPass show ?thesis by simp
    next
      case False
      with LoopPass Pair have st: "step config a s = s'" by simp
      show ?thesis
      proof (cases outcome)
        case Exited
        with Pair assms(1) show ?thesis
          unfolding st
          by (auto simp: processQueue_pass_def tracked_def split: if_splits prod.splits option.splits)
      next
        case (Slept n)
        with Pair assms(1) show ?thesis
          unfolding st
          by (auto simp: processQueue_pass_def tracked_def split: if_splits prod.splits option.splits)
      next
        case (Launched task)
        with Pair obtain pq where
          s': "s' = processTask_begin now task (s\<lparr>priorityQueue := pq\<rparr>)"
          by (auto simp: processQueue_pass_def split: if_splits prod.splits option.splits)
        from assms(3) have new: "task_id task \<notin> set (map task_id (running s))"
          unfolding st s' by (simp add: processTask_begin_def Let_def)
        with assms(1) show ?thesis
          unfolding st s' by (simp add: processTask_begin_def Let_def tracked_def set_add_def)
      qed
    qed
  qed
next
  case (Resolved i r now)
  with assms(1) tracked_remove [OF assms(1,2)] show ?thesis
    by (auto simp: processTask_resolved_def Let_def tracked_def image_Un)
next
  case (Rejected i err now)
  with assms(1) tracked_remove [OF assms(1,2)] show ?thesis
    by (auto simp: processTask_rejected_def Let_def tracked_def handleTaskError_running
        handleTaskError_activeTasks image_Un)
qed (use assms(1) in \<open>auto simp: tracked_def start_def pause_def resume_def stop_begin_def
      stop_end_def retry_timer_fired_def updatePriority_def cancel_def cancelTask_def
      retryFailed_def TaskQueue_clear_def Let_def split: option.splits prod.splits bool.splits\<close>)

lemma tracked_run:
  assumes "\<forall>n\<le>length acts. distinct (map task_id (running (run config (take n acts) (TaskQueue_new config))))"
  shows "tracked (run config acts (TaskQueue_new config))"
  using assms
proof (induction acts rule: rev_induct)
  case Nil
  show ?case by (simp add: run_def tracked_def TaskQueue_new_def)
next
  case (snoc a acts)
  have pre: "\<forall>n\<le>length acts. distinct (map task_id (running (run config (take n acts) (TaskQueue_new config))))"
  proof (intro allI impI)
    fix n assume n: "n \<le> length acts"
    then have "n \<le> length (acts @ [a])" by simp
    with snoc.prems have "distinct (map task_id (running (run config (take n (acts @ [a])) (TaskQueue_new config))))"
      by blast
    with n show "distinct (map task_id (running (run config (take n acts) (TaskQueue_new config))))"
      by simp
  qed
  then have t: "tracked (run config acts (TaskQueue_new config))" by (rule snoc.IH)
  from pre have d: "distinct (map task_id (running (run config acts (TaskQueue_new config))))"
    by (auto dest: spec [where x = "length acts"])
  from snoc.prems have d': "distinct (map task_id (running (run config (acts @ [a]) (TaskQueue_new config))))"
    by (auto dest: spec [where x = "length (acts @ [a])"])
  have "run config (acts @ [a]) (TaskQueue_new config) =
      step config a (run config acts (TaskQueue_new config))"
    by (simp add: run_def)
  with tracked_step [OF t d] d' show ?case by simp
qed

lemma running_bounded_when_ids_differ:
  assumes "\<forall>n\<le>length acts. distinct (map task_id (running (run config (take n acts) (TaskQueue_new config))))"
  shows "length (running (run config acts (TaskQueue_new config))) \<le> concurrency config"
proof -
  let ?s = "run config acts (TaskQueue_new config)"
  from tracked_run [OF assms] have t: "tracked ?s" .
  from assms have d: "distinct (map task_id (running ?s))"
    by (auto dest: spec [where x = "length acts"])
  have "length (running ?s) = card (set (map task_id (running ?s)))"
    using distinct_card [OF d] by simp
  also have "\<dots> = length (activeTasks ?s)"
    using t distinct_card [of "activeTasks ?s"] by (simp add: tracked_def)
  finally show ?thesis using active_ids_bounded [of config acts] by simp
qed

text \<open>
  C2 (where the code departs from it). \<open>add\<close> does not check that an id is new,
  and \<open>Set.add\<close> of an id already present changes nothing. With
  \<open>concurrency = 2\<close>, three tasks added together, two of them with the id
  \<open>a\<close>, are all dequeued by the first three passes of the loop, which run one
  after the other before \<open>add\<close> returns: three tasks are in PROCESSING at once,
  while \<open>activeTasks\<close> holds two ids.
\<close>

theorem concurrency_exceeded:
  "(let s = run test_config
              [Add [(task_literal (Some ''a'') None, test_env),
                    (task_literal (Some ''a'') None, test_env),
                    (task_literal (Some ''b'') None, test_env)],
               LoopPass 0, LoopPass 0, LoopPass 0]
              (TaskQueue_new test_config)
    in concurrency test_config = 2 \<and>
       map status (running s) = [Some PROCESSING, Some PROCESSING, Some PROCESSING] \<and>
       map task_id (running s) = [Some ''a'', Some ''a'', Some ''b''] \<and>
       activeTasks s = [Some ''a'', Some ''b''] \<and>
       PriorityQueue_size (priorityQueue s) = 0)"
  by code_simp

subsection \<open>What every task in the queue keeps\<close>

text \<open>Tasks anywhere in the queue's state keep a property of their id and priority.\<close>

definition good :: "(string option \<Rightarrow> TaskPriority option \<Rightarrow> bool) \<Rightarrow> Task list \<Rightarrow> bool" where
  "good Q ts = (\<forall>t\<in>set ts. Q (task_id t) (priority t))"

definition inv :: "(string option \<Rightarrow> TaskPriority option \<Rightarrow> bool) \<Rightarrow> TaskQueue \<Rightarrow> bool" where
  "inv Q s =
     ((\<forall>p. good Q (tier (priorityQueue s) p)) \<and> good Q (running s) \<and>
      good Q (map snd (timers s)) \<and> good Q (map snd (tasks (deadLetterQueue s))))"

definition closed_enqueue :: "(string option \<Rightarrow> TaskPriority option \<Rightarrow> bool) \<Rightarrow> bool" where
  "closed_enqueue Q = (\<forall>i p. Q i p \<longrightarrow> Q i (Some (case p of None \<Rightarrow> NORMAL | Some v \<Rightarrow> v)))"

lemma good_simps [simp]:
  "good Q []" "good Q (t # ts) = (Q (task_id t) (priority t) \<and> good Q ts)"
  "good Q (xs @ ys) = (good Q xs \<and> good Q ys)"
  by (auto simp: good_def)

lemma good_subset: "good Q ys \<Longrightarrow> set xs \<subseteq> set ys \<Longrightarrow> good Q xs"
  by (auto simp: good_def)

lemma good_enqueue:
  assumes "closed_enqueue Q" "\<forall>p. good Q (tier q p)" "Q (task_id t) (priority t)"
  shows "good Q (tier (enqueue t q) p)"
  using assms by (auto simp: tier_enqueue closed_enqueue_def effective_priority_def)

lemma dequeue_scan_Cons:
  "dequeue_scan (p # ps) q =
     (case tier q p of
        t # rest \<Rightarrow> (Some t, q\<lparr>queues := (queues q)(p \<mapsto> rest)\<rparr>)
      | [] \<Rightarrow> dequeue_scan ps q)"
  by (simp add: tier_def split: option.splits list.splits)

lemma remove_scan_Cons:
  "remove_scan (p # ps) i q =
     (case splice_first (\<lambda>t. task_id t = Some i) (tier q p) of
        Some queue' \<Rightarrow> (True, q\<lparr>queues := (queues q)(p \<mapsto> queue')\<rparr>)
      | None \<Rightarrow> remove_scan ps i q)"
  by (simp add: tier_def split: option.splits list.splits)

lemma dequeue_scan_tiers:
  "dequeue_scan ps q = (r, q') \<Longrightarrow> tier q' p = tier q p \<or> tier q' p = tl (tier q p)"
proof (induction ps)
  case Nil
  then show ?case by simp
next
  case (Cons a ps)
  then show ?case
    by (cases "tier q a") (auto simp: dequeue_scan_Cons tier_update simp del: dequeue_scan.simps)
qed

lemma dequeue_scan_member:
  "dequeue_scan ps q = (Some t, q') \<Longrightarrow> \<exists>p. t \<in> set (tier q p)"
proof (induction ps)
  case Nil
  then show ?case by simp
next
  case (Cons a ps)
  show ?case
  proof (cases "tier q a")
    case Nil
    with Cons show ?thesis by (simp add: dequeue_scan_Cons del: dequeue_scan.simps)
  next
    case (Cons x xs)
    with Cons.prems have "t = x" by (simp add: dequeue_scan_Cons del: dequeue_scan.simps)
    with Cons have "t \<in> set (tier q a)" by simp
    then show ?thesis ..
  qed
qed

lemma set_tl_subset: "set (tl xs) \<subseteq> set xs"
  by (cases xs) auto

lemma good_dequeue:
  assumes "dequeue q = (r, q')" "\<forall>p. good Q (tier q p)"
  shows "good Q (tier q' p)" and "r = Some t \<Longrightarrow> Q (task_id t) (priority t)"
proof -
  from dequeue_scan_tiers [OF assms(1) [unfolded dequeue_def], of p]
  have "set (tier q' p) \<subseteq> set (tier q p)" using set_tl_subset [of "tier q p"] by auto
  with assms(2) show "good Q (tier q' p)" by (auto intro: good_subset)
  assume "r = Some t"
  with dequeue_scan_member assms(1) obtain p' where "t \<in> set (tier q p')"
    unfolding dequeue_def by blast
  with assms(2) show "Q (task_id t) (priority t)" by (auto simp: good_def)
qed

lemma splice_first_subset: "splice_first P xs = Some ys \<Longrightarrow> set ys \<subseteq> set xs"
  by (induction xs arbitrary: ys) (auto split: if_splits)

lemma remove_scan_tiers:
  "remove_scan ps i q = (b, q') \<Longrightarrow> set (tier q' p) \<subseteq> set (tier q p)"
proof (induction ps)
  case Nil
  then show ?case by simp
next
  case (Cons a ps)
  show ?case
  proof (cases "splice_first (\<lambda>t. task_id t = Some i) (tier q a)")
    case None
    with Cons show ?thesis by (simp add: remove_scan_Cons del: remove_scan.simps)
  next
    case (Some ys)
    with Cons.prems have "q' = q\<lparr>queues := (queues q)(a \<mapsto> ys)\<rparr>"
      by (simp add: remove_scan_Cons del: remove_scan.simps)
    with splice_first_subset [OF Some] show ?thesis by (simp add: tier_update)
  qed
qed

lemma tier_clear: "tier (PriorityQueue_clear q) p = []"
  by (simp add: tier_def PriorityQueue_clear_def split: option.splits)

lemma alist_update_values: "snd ` set (AList.update k v al) \<subseteq> insert v (snd ` set al)"
  by (induction al) auto

lemma alist_delete_values: "snd ` set (AList.delete k al) \<subseteq> snd ` set al"
  by (auto simp: AList.delete_eq)

lemma dlq_add_subset:
  "snd ` set (tasks (DeadLetterQueue_add t d)) \<subseteq> insert t (snd ` set (tasks d))"
proof -
  define d1 where "d1 = (if length (tasks d) \<ge> maxSize d then
                  (case tasks d of
                     (Some oldestId, _) # _ \<Rightarrow>
                       if oldestId \<noteq> [] then
                         d\<lparr>tasks := AList.delete (Some oldestId) (tasks d),
                           dlq_emitted := dlq_emitted d @ [DLQ_overflow oldestId]\<rparr>
                       else d
                   | _ \<Rightarrow> d)
                else d)"
  have "tasks d1 = tasks d \<or> (\<exists>k. tasks d1 = AList.delete k (tasks d))"
    unfolding d1_def by (auto split: list.splits option.splits)
  then have sub: "snd ` set (tasks d1) \<subseteq> snd ` set (tasks d)"
  proof (elim disjE exE)
    fix k assume "tasks d1 = AList.delete k (tasks d)"
    then show ?thesis using alist_delete_values [of k "tasks d"] by simp
  qed simp
  have "tasks (DeadLetterQueue_add t d) = AList.update (task_id t) t (tasks d1)"
    unfolding DeadLetterQueue_add_def d1_def by (simp add: Let_def)
  with alist_update_values [of "task_id t" t "tasks d1"] sub show ?thesis by auto
qed

lemma good_dlq_add:
  assumes "good Q (map snd (tasks d))" "Q (task_id t) (priority t)"
  shows "good Q (map snd (tasks (DeadLetterQueue_add t d)))"
proof -
  from dlq_add_subset [of t d]
  have "set (map snd (tasks (DeadLetterQueue_add t d))) \<subseteq> set (t # map snd (tasks d))" by simp
  moreover from assms have "good Q (t # map snd (tasks d))" by simp
  ultimately show ?thesis by (rule good_subset [rotated])
qed

lemma good_enqueue_all:
  assumes "closed_enqueue Q" "\<forall>p. good Q (tier q p)" "good Q ts"
  shows "good Q (tier (foldl (\<lambda>acc t. enqueue t acc) q ts) p)"
  using assms unfolding tier_enqueue_all closed_enqueue_def good_def effective_priority_def
  by auto

lemma Q_add_assign:
  assumes "\<And>i p env. Q (if truthy_id i then i else Some (generateTaskId env))
                            (if truthy_priority p then p else Some NORMAL)"
  shows "Q (task_id (add_assign t env)) (priority (add_assign t env))"
  using assms [of "task_id t" env "priority t"] by (auto simp: add_assign_def Let_def)

lemma inv_add_each:
  assumes ce: "closed_enqueue Q"
    and new: "\<And>i p env. Q (if truthy_id i then i else Some (generateTaskId env))
                            (if truthy_priority p then p else Some NORMAL)"
  shows "inv Q s \<Longrightarrow> inv Q (snd (add_each config ts s))"
proof (induction ts arbitrary: s)
  case Nil
  then show ?case by simp
next
  case (Cons a ts)
  obtain t env where a: "a = (t, env)" by (cases a)
  have "inv Q (add_one t env s)"
    using Cons.prems good_enqueue [OF ce _ Q_add_assign [of Q, OF new], of "priorityQueue s"]
    by (simp add: inv_def add_one_def)
  from Cons.IH [OF this] Cons.prems show ?case
    unfolding a by simp
qed

lemma inv_start: "inv Q (start s) = inv Q s"
  by (simp add: inv_def start_def)

lemma inv_add:
  assumes ce: "closed_enqueue Q"
    and new: "\<And>i p env. Q (if truthy_id i then i else Some (generateTaskId env))
                            (if truthy_priority p then p else Some NORMAL)"
    and "inv Q s"
  shows "inv Q (snd (TaskQueue_add config ts s))"
proof -
  obtain e s' where r: "add_each config ts s = (e, s')" by (cases "add_each config ts s")
  with inv_add_each [OF ce new assms(3), of config ts] have "inv Q s'" by simp
  with r show ?thesis by (cases e) (simp_all add: TaskQueue_add_def inv_start)
qed


lemma good_getAll: "\<forall>p. good Q (tier q p) \<Longrightarrow> good Q (getAll q)"
  by (simp add: getAll_def priorities_def)

lemma good_take_drop: "good Q xs \<Longrightarrow> good Q (take i xs @ drop (Suc i) xs)"
  by (auto simp: good_def dest: in_set_takeD in_set_dropD)

lemma good_nth: "good Q xs \<Longrightarrow> i < length xs \<Longrightarrow> Q (task_id (xs ! i)) (priority (xs ! i))"
  by (simp add: good_def)

lemma inv_pass:
  assumes "inv Q s"
  shows "inv Q (snd (processQueue_pass config now s))"
proof -
  obtain r q' where dq: "dequeue (priorityQueue s) = (r, q')"
    by (cases "dequeue (priorityQueue s)")
  from assms have tiers: "\<forall>p. good Q (tier (priorityQueue s) p)" by (simp add: inv_def)
  note gd = good_dequeue [OF dq tiers]
  show ?thesis
  proof (cases r)
    case None
    with assms dq show ?thesis by (simp add: processQueue_pass_def inv_def)
  next
    case (Some t)
    with gd(2) have "Q (task_id t) (priority t)" by simp
    with assms dq Some gd(1) show ?thesis
      by (simp add: processQueue_pass_def processTask_begin_def Let_def inv_def)
  qed
qed

lemma inv_handleTaskError:
  assumes "inv Q s" "Q (task_id t) (priority t)"
  shows "inv Q (handleTaskError config now t err s)"
proof -
  define t2 where "t2 = t\<lparr>retries := Some ((case retries t of None \<Rightarrow> 0 | Some r \<Rightarrow> r) + 1),
    lastError := Some err, status := Some FAILED, failedAt := Some now\<rparr>"
  have "Q (task_id t2) (priority t2)" using assms(2) by (simp add: t2_def)
  with assms(1) have "good Q (map snd (tasks (DeadLetterQueue_add t2 (deadLetterQueue s))))"
    by (intro good_dlq_add) (simp_all add: inv_def)
  with assms show ?thesis
    by (simp add: handleTaskError_def Let_def inv_def t2_def)
qed

lemma inv_rejected:
  assumes "inv Q s"
  shows "inv Q (processTask_rejected config i err now s)"
proof (cases "i < length (running s)")
  case True
  from assms have "good Q (running s)" by (simp add: inv_def)
  from good_nth [OF this True] good_take_drop [OF this, of i]
  have "inv Q (handleTaskError config now (running s ! i) err
                 (s\<lparr>running := take i (running s) @ drop (Suc i) (running s)\<rparr>))"
    using assms by (intro inv_handleTaskError) (simp_all add: inv_def)
  with True show ?thesis
    by (simp add: processTask_rejected_def Let_def inv_def)
next
  case False
  with assms show ?thesis by (simp add: processTask_rejected_def)
qed

lemma inv_resolved:
  assumes "inv Q s"
  shows "inv Q (processTask_resolved i r now s)"
proof (cases "i < length (running s)")
  case True
  from assms have "good Q (running s)" by (simp add: inv_def)
  from good_take_drop [OF this, of i] assms True show ?thesis
    by (simp add: processTask_resolved_def Let_def inv_def)
next
  case False
  with assms show ?thesis by (simp add: processTask_resolved_def)
qed

lemma inv_timer:
  assumes "closed_enqueue Q" "inv Q s"
  shows "inv Q (retry_timer_fired i s)"
proof (cases "i < length (timers s)")
  case True
  from assms(2) have g: "good Q (map snd (timers s))" by (simp add: inv_def)
  from good_nth [OF g] True have q: "Q (task_id (snd (timers s ! i))) (priority (snd (timers s ! i)))"
    by simp
  have "good Q (map snd (take i (timers s) @ drop (Suc i) (timers s)))"
    using g by (auto simp: good_def dest: in_set_takeD in_set_dropD)
  with assms True good_enqueue [OF assms(1) _ q, of "priorityQueue s"] show ?thesis
    by (simp add: retry_timer_fired_def inv_def)
next
  case False
  with assms show ?thesis by (simp add: retry_timer_fired_def)
qed

lemma inv_remove:
  assumes "inv Q s" "PriorityQueue_remove i (priorityQueue s) = (b, q')"
  shows "inv Q (s\<lparr>priorityQueue := q'\<rparr>)"
proof -
  have "good Q (tier q' p)" for p
    using remove_scan_tiers [OF assms(2) [unfolded PriorityQueue_remove_def], of p] assms(1)
    by (auto simp: inv_def intro: good_subset)
  with assms(1) show ?thesis by (simp add: inv_def)
qed

lemma inv_emitted [simp]: "inv Q (s\<lparr>emitted := e\<rparr>) = inv Q s"
  by (simp add: inv_def)

lemma inv_cancel:
  assumes "inv Q s" shows "inv Q (snd (cancel i s))"
proof -
  obtain b q' where r: "PriorityQueue_remove i (priorityQueue s) = (b, q')"
    by (cases "PriorityQueue_remove i (priorityQueue s)")
  from inv_remove [OF assms r] assms r show ?thesis
    by (cases b) (simp_all add: cancel_def inv_def)
qed

lemma inv_cancelTask:
  assumes "inv Q s" shows "inv Q (snd (cancelTask i s))"
proof -
  obtain b q' where r: "PriorityQueue_remove i (priorityQueue s) = (b, q')"
    by (cases "PriorityQueue_remove i (priorityQueue s)")
  from inv_remove [OF assms r] assms r show ?thesis
    by (cases b) (simp_all add: cancelTask_def inv_def)
qed

lemma inv_clear:
  assumes "inv Q s" shows "inv Q (TaskQueue_clear a b c s)"
  using assms by (simp add: TaskQueue_clear_def Let_def inv_def tier_clear DeadLetterQueue_clear_def)

lemma good_alist_delete: "good Q (map snd al) \<Longrightarrow> good Q (map snd (AList.delete k al))"
  by (auto simp: good_def AList.delete_eq)

lemma inv_retryFailed:
  assumes "closed_enqueue Q" "inv Q s"
  shows "inv Q (retryFailed i s)"
proof (cases "if truthy_id i then i else None")
  case (Some k)
  show ?thesis
  proof (cases "DeadLetterQueue_get k (deadLetterQueue s)")
    case None
    with Some assms show ?thesis by (simp add: retryFailed_def)
  next
    case get: (Some t)
    then have "t \<in> snd ` set (tasks (deadLetterQueue s))"
      by (auto simp: DeadLetterQueue_get_def dest!: map_of_SomeD intro: rev_image_eqI)
    with assms(2) have q: "Q (task_id t) (priority t)" by (auto simp: inv_def good_def)
    have "good Q (map snd (AList.delete (Some k) (tasks (deadLetterQueue s))))"
      using assms(2) by (intro good_alist_delete) (simp add: inv_def)
    moreover have "good Q (tier (enqueue (t\<lparr>retries := Some 0, status := Some PENDING\<rparr>)
        (priorityQueue s)) p)" for p
      using assms q by (intro good_enqueue) (simp_all add: inv_def)
    ultimately show ?thesis using Some get assms(2)
      by (simp add: retryFailed_def inv_def DeadLetterQueue_remove_def)
  qed
next
  case None
  have fold: "foldl (\<lambda>acc task. enqueue (task\<lparr>retries := Some 0, status := Some PENDING\<rparr>) acc) q ts =
              foldl (\<lambda>acc t. enqueue t acc) q (map (\<lambda>task. task\<lparr>retries := Some 0, status := Some PENDING\<rparr>) ts)"
    for q ts by (induction ts arbitrary: q) simp_all
  have "good Q (map (\<lambda>task. task\<lparr>retries := Some 0, status := Some PENDING\<rparr>)
          (DeadLetterQueue_getAll (deadLetterQueue s)))"
    using assms(2) by (auto simp: inv_def good_def DeadLetterQueue_getAll_def)
  with assms have "good Q (tier (foldl (\<lambda>acc t. enqueue t acc) (priorityQueue s)
      (map (\<lambda>task. task\<lparr>retries := Some 0, status := Some PENDING\<rparr>)
          (DeadLetterQueue_getAll (deadLetterQueue s)))) p)" for p
    by (intro good_enqueue_all) (simp_all add: inv_def)
  with None assms(2) show ?thesis
    by (simp add: retryFailed_def inv_def fold DeadLetterQueue_clear_def)
qed

lemma assign_first_subset:
  "assign_first P f xs = Some ys \<Longrightarrow> set ys \<subseteq> set xs \<union> f ` set xs"
  by (induction xs arbitrary: ys) (auto split: if_splits)

lemma assign_scan_tiers:
  "set (tier (assign_scan ps i f q) p) \<subseteq> set (tier q p) \<union> f ` set (tier q p)"
proof (induction ps)
  case Nil
  show ?case by simp
next
  case (Cons a ps)
  show ?case
  proof (cases "assign_first (\<lambda>t. task_id t = Some i) f (tier q a)")
    case None
    with Cons show ?thesis by simp
  next
    case (Some ys)
    with assign_first_subset [OF Some] show ?thesis by (auto simp: tier_update)
  qed
qed

lemma tier_reorder:
  "tier (reorder q) p =
     map (\<lambda>t. t\<lparr>priority := Some p\<rparr>) (filter (\<lambda>t. effective_priority t = p) (getAll q))"
  by (simp add: reorder_def tier_enqueue_all tier_clear)

lemma inv_updatePriority:
  assumes "closed_enqueue Q" "inv Q s" "\<forall>i' p'. Q i' p' \<longrightarrow> Q i' (Some p)"
  shows "inv Q (updatePriority i p s)"
proof (cases "findById i (priorityQueue s)")
  case None
  with assms show ?thesis by (simp add: updatePriority_def)
next
  case (Some t)
  define q1 where "q1 = assign_scan priorities i (\<lambda>t. t\<lparr>priority := Some p\<rparr>) (priorityQueue s)"
  have "good Q (tier q1 p')" for p'
    unfolding good_def
  proof
    fix t assume "t \<in> set (tier q1 p')"
    with assign_scan_tiers [of priorities i "\<lambda>t. t\<lparr>priority := Some p\<rparr>" "priorityQueue s" p']
    consider "t \<in> set (tier (priorityQueue s) p')"
      | u where "u \<in> set (tier (priorityQueue s) p')" "t = u\<lparr>priority := Some p\<rparr>"
      unfolding q1_def by blast
    then show "Q (task_id t) (priority t)"
    proof cases
      case 1
      with assms(2) show ?thesis by (simp add: inv_def good_def)
    next
      case 2
      with assms(2) have "Q (task_id u) (priority u)" by (simp add: inv_def good_def)
      with assms(3) have "Q (task_id u) (Some p)" by blast
      with 2 show ?thesis by simp
    qed
  qed
  then have "good Q (getAll q1)" by (intro good_getAll) simp
  then have "good Q (tier (reorder q1) p')" for p'
    using assms(1) unfolding tier_reorder good_def closed_enqueue_def effective_priority_def
    by auto
  with Some assms(2) show ?thesis
    by (simp add: updatePriority_def inv_def q1_def)
qed

definition allowed :: "(string option \<Rightarrow> TaskPriority option \<Rightarrow> bool) \<Rightarrow> Action \<Rightarrow> bool" where
  "allowed Q a =
     (case a of UpdatePriority i p \<Rightarrow> (\<forall>i' p'. Q i' p' \<longrightarrow> Q i' (Some p)) | _ \<Rightarrow> True)"

lemma inv_step:
  assumes ce: "closed_enqueue Q"
    and new: "\<And>i p env. Q (if truthy_id i then i else Some (generateTaskId env))
                            (if truthy_priority p then p else Some NORMAL)"
    and "inv Q s" "allowed Q a"
  shows "inv Q (step config a s)"
proof (cases a)
  case (Add ts)
  with inv_add [OF ce new assms(3)] show ?thesis by simp
next
  case (LoopPass now)
  with inv_pass [OF assms(3)] assms(3) show ?thesis by simp
next
  case (Resolved i r now)
  with inv_resolved [OF assms(3)] show ?thesis by simp
next
  case (Rejected i err now)
  with inv_rejected [OF assms(3)] show ?thesis by simp
next
  case (TimerFired i)
  with inv_timer [OF ce assms(3)] show ?thesis by simp
next
  case (UpdatePriority i p)
  with inv_updatePriority [OF ce assms(3)] assms(4) show ?thesis by (simp add: allowed_def)
next
  case (Cancel i)
  with inv_cancel [OF assms(3)] show ?thesis by simp
next
  case (CancelTask i)
  with inv_cancelTask [OF assms(3)] show ?thesis by simp
next
  case (RetryFailed i)
  with inv_retryFailed [OF ce assms(3)] show ?thesis by simp
next
  case (Clear a b c)
  with inv_clear [OF assms(3)] show ?thesis by simp
qed (use assms(3) in \<open>simp_all add: inv_def start_def pause_def resume_def stop_begin_def stop_end_def\<close>)

lemma inv_new: "inv Q (TaskQueue_new config)"
  by (simp add: inv_def TaskQueue_new_def tier_new DeadLetterQueue_new_def)

lemma inv_run:
  assumes ce: "closed_enqueue Q"
    and new: "\<And>i p env. Q (if truthy_id i then i else Some (generateTaskId env))
                            (if truthy_priority p then p else Some NORMAL)"
    and "inv Q s" "\<forall>a\<in>set acts. allowed Q a"
  shows "inv Q (run config acts s)"
  using assms(3,4) unfolding run_def
proof (induction acts arbitrary: s)
  case Nil
  then show ?case by simp
next
  case (Cons a acts)
  from inv_step [OF ce new Cons.prems(1), of a config] Cons.prems(2)
  have "inv Q (step config a s)" by simp
  from Cons.IH [OF this] Cons.prems(2) show ?case by simp
qed


definition no_critical :: "string option \<Rightarrow> TaskPriority option \<Rightarrow> bool" where
  "no_critical i p = (p \<noteq> Some CRITICAL)"

lemma closed_enqueue_no_critical: "closed_enqueue no_critical"
  by (auto simp: closed_enqueue_def no_critical_def split: option.splits)

lemma truthy_priority_no_critical:
  "no_critical i (if truthy_priority p then p else Some NORMAL)"
  by (cases p) (auto simp: no_critical_def truthy_priority_def)

lemma add_assign_no_critical: "priority (add_assign t env) \<noteq> Some CRITICAL"
  using truthy_priority_no_critical [of undefined "priority t"]
  by (auto simp: add_assign_def Let_def no_critical_def)

lemma tier_enqueue_critical:
  "priority t \<noteq> Some CRITICAL \<Longrightarrow> tier (enqueue t q) CRITICAL = tier q CRITICAL"
  by (auto simp: tier_enqueue effective_priority_def split: option.splits)

lemma tier_enqueue_all_critical:
  "good no_critical ts \<Longrightarrow>
   tier (foldl (\<lambda>acc t. enqueue t acc) q ts) CRITICAL = tier q CRITICAL"
  by (induction ts arbitrary: q) (simp_all add: tier_enqueue_critical no_critical_def)

lemma add_each_critical:
  "tier (priorityQueue (snd (add_each config ts s))) CRITICAL = tier (priorityQueue s) CRITICAL"
proof (induction ts arbitrary: s)
  case Nil
  show ?case by simp
next
  case (Cons a ts)
  obtain t env where a: "a = (t, env)" by (cases a)
  show ?case
    unfolding a by (simp add: Cons.IH add_one_def tier_enqueue_critical add_assign_no_critical)
qed

lemma add_critical:
  "tier (priorityQueue (snd (TaskQueue_add config ts s))) CRITICAL = tier (priorityQueue s) CRITICAL"
proof -
  obtain e s' where r: "add_each config ts s = (e, s')" by (cases "add_each config ts s")
  with add_each_critical [of config ts s]
  have "tier (priorityQueue s') CRITICAL = tier (priorityQueue s) CRITICAL" by simp
  with r show ?thesis by (cases e) (simp_all add: TaskQueue_add_def start_def)
qed

lemma handleTaskError_priorityQueue:
  "priorityQueue (handleTaskError config now t err s) = priorityQueue s"
  by (simp add: handleTaskError_def Let_def)

lemma critical_step:
  assumes "inv no_critical s" "tier (priorityQueue s) CRITICAL = []" "allowed no_critical a"
  shows "tier (priorityQueue (step config a s)) CRITICAL = []"
proof (cases a)
  case (Add ts)
  with assms(2) show ?thesis by (simp add: add_critical)
next
  case (LoopPass now)
  obtain r q' where dq: "dequeue (priorityQueue s) = (r, q')"
    by (cases "dequeue (priorityQueue s)")
  from dequeue_scan_tiers [OF dq [unfolded dequeue_def], of CRITICAL] assms(2)
  have "tier q' CRITICAL = []" by auto
  with LoopPass assms(2) dq show ?thesis
    by (cases r) (simp_all add: processQueue_pass_def processTask_begin_def Let_def)
next
  case (Resolved i r now)
  with assms(2) show ?thesis by (simp add: processTask_resolved_def Let_def)
next
  case (Rejected i err now)
  with assms(2) show ?thesis
    by (simp add: processTask_rejected_def Let_def handleTaskError_priorityQueue)
next
  case (TimerFired i)
  show ?thesis
  proof (cases "i < length (timers s)")
    case True
    from assms(1) have "good no_critical (map snd (timers s))" by (simp add: inv_def)
    from good_nth [OF this] True have "priority (snd (timers s ! i)) \<noteq> Some CRITICAL"
      by (simp add: no_critical_def)
    with TimerFired True assms(2) show ?thesis
      by (simp add: retry_timer_fired_def tier_enqueue_critical)
  next
    case False
    with TimerFired assms(2) show ?thesis by (simp add: retry_timer_fired_def)
  qed
next
  case (UpdatePriority i p)
  show ?thesis
  proof (cases "findById i (priorityQueue s)")
    case None
    with UpdatePriority assms(2) show ?thesis by (simp add: updatePriority_def)
  next
    case (Some t)
    from inv_updatePriority [OF closed_enqueue_no_critical assms(1), of p i] assms(3) UpdatePriority
    have "inv no_critical (updatePriority i p s)" by (simp add: allowed_def)
    then have g: "good no_critical (tier (priorityQueue (updatePriority i p s)) CRITICAL)"
      by (simp add: inv_def)
    have "tier (priorityQueue (updatePriority i p s)) CRITICAL = []"
    proof (rule ccontr)
      assume "tier (priorityQueue (updatePriority i p s)) CRITICAL \<noteq> []"
      then obtain u where u: "u \<in> set (tier (priorityQueue (updatePriority i p s)) CRITICAL)"
        by (cases "tier (priorityQueue (updatePriority i p s)) CRITICAL") auto
      with Some have "priority u = Some CRITICAL"
        by (auto simp: updatePriority_def tier_reorder)
      with g u show False by (auto simp: good_def no_critical_def)
    qed
    with UpdatePriority show ?thesis by simp
  qed
next
  case (Cancel i)
  obtain b q' where r: "PriorityQueue_remove i (priorityQueue s) = (b, q')"
    by (cases "PriorityQueue_remove i (priorityQueue s)")
  from remove_scan_tiers [OF r [unfolded PriorityQueue_remove_def], of CRITICAL] assms(2)
  have "tier q' CRITICAL = []" by simp
  with Cancel r assms(2) show ?thesis by (cases b) (simp_all add: cancel_def)
next
  case (CancelTask i)
  obtain b q' where r: "PriorityQueue_remove i (priorityQueue s) = (b, q')"
    by (cases "PriorityQueue_remove i (priorityQueue s)")
  from remove_scan_tiers [OF r [unfolded PriorityQueue_remove_def], of CRITICAL] assms(2)
  have "tier q' CRITICAL = []" by simp
  with CancelTask r assms(2) show ?thesis by (cases b) (simp_all add: cancelTask_def)
next
  case (RetryFailed i)
  have fold: "foldl (\<lambda>acc task. enqueue (task\<lparr>retries := Some 0, status := Some PENDING\<rparr>) acc) q ts =
              foldl (\<lambda>acc t. enqueue t acc) q (map (\<lambda>task. task\<lparr>retries := Some 0, status := Some PENDING\<rparr>) ts)"
    for q ts by (induction ts arbitrary: q) simp_all
  from assms(1) have g: "good no_critical (map snd (tasks (deadLetterQueue s)))"
    by (simp add: inv_def)
  then have all: "good no_critical (map (\<lambda>task. task\<lparr>retries := Some 0, status := Some PENDING\<rparr>)
          (DeadLetterQueue_getAll (deadLetterQueue s)))"
    by (auto simp: good_def DeadLetterQueue_getAll_def)
  have one: "priority t \<noteq> Some CRITICAL"
    if "DeadLetterQueue_get k (deadLetterQueue s) = Some t" for k t
  proof -
    from that have "t \<in> snd ` set (tasks (deadLetterQueue s))"
      by (auto simp: DeadLetterQueue_get_def dest!: map_of_SomeD intro: rev_image_eqI)
    with g show ?thesis by (auto simp: good_def no_critical_def)
  qed
  from RetryFailed assms(2) show ?thesis
    by (auto simp: retryFailed_def fold tier_enqueue_all_critical [OF all]
        tier_enqueue_critical one split: option.splits)
next
  case (Clear a b c)
  with assms(2) show ?thesis by (simp add: TaskQueue_clear_def Let_def tier_clear)
qed (use assms(2) in \<open>simp_all add: start_def pause_def resume_def stop_begin_def stop_end_def\<close>)

lemma critical_run:
  assumes "inv no_critical s" "tier (priorityQueue s) CRITICAL = []"
    "\<forall>a\<in>set acts. allowed no_critical a"
  shows "tier (priorityQueue (run config acts s)) CRITICAL = []"
  using assms unfolding run_def
proof (induction acts arbitrary: s)
  case Nil
  then show ?case by simp
next
  case (Cons a acts)
  from Cons.prems have a: "allowed no_critical a" by simp
  have "inv no_critical (step config a s)"
    by (rule inv_step [OF closed_enqueue_no_critical truthy_priority_no_critical Cons.prems(1) a])
  moreover have "tier (priorityQueue (step config a s)) CRITICAL = []"
    by (rule critical_step [OF Cons.prems(1,2) a])
  ultimately show ?case using Cons.IH [of "step config a s"] Cons.prems(3) by simp
qed

lemma allowed_no_critical:
  "allowed no_critical a = (\<forall>i. a \<noteq> UpdatePriority i CRITICAL)"
  by (cases a) (auto simp: allowed_def no_critical_def)

subsection \<open>Priorities assigned by \<open>add\<close>\<close>

text \<open>
  C5 (as the code has it). \<open>add\<close> replaces a priority of CRITICAL (numeric value 0,
  falsy) by NORMAL before it enqueues the task, which then joins the NORMAL tier; no call
  of \<open>add\<close> changes the CRITICAL tier; and the CRITICAL tier stays empty in every state
  the queue reaches from its construction by calls, loop passes, settlings and timers
  among which there is no \<open>updatePriority(id, CRITICAL)\<close>. (With such a call a task that
  was added through \<open>add\<close> does move to the CRITICAL tier: see the counterexample.)
\<close>

theorem critical_tier_after_add:
  "(priority t = Some CRITICAL \<longrightarrow> priority (add_assign t env) = Some NORMAL) \<and>
   (priority t = Some CRITICAL \<and> PriorityQueue_size (priorityQueue s) < maxQueueSize config \<longrightarrow>
      tier (priorityQueue (snd (TaskQueue_add config [(t, env)] s))) NORMAL =
        tier (priorityQueue s) NORMAL @ [add_assign t env]) \<and>
   tier (priorityQueue (snd (TaskQueue_add config ts s))) CRITICAL = tier (priorityQueue s) CRITICAL \<and>
   ((\<forall>i. UpdatePriority i CRITICAL \<notin> set acts) \<longrightarrow>
      tier (priorityQueue (run config acts (TaskQueue_new config))) CRITICAL = [])"
proof (intro conjI impI)
  assume "priority t = Some CRITICAL"
  then show "priority (add_assign t env) = Some NORMAL"
    by (simp add: add_assign_def Let_def truthy_priority_def)
next
  assume a: "priority t = Some CRITICAL \<and> PriorityQueue_size (priorityQueue s) < maxQueueSize config"
  then have "priority (add_assign t env) = Some NORMAL"
    by (simp add: add_assign_def Let_def truthy_priority_def)
  with a show "tier (priorityQueue (snd (TaskQueue_add config [(t, env)] s))) NORMAL =
        tier (priorityQueue s) NORMAL @ [add_assign t env]"
    by (simp add: TaskQueue_add_def add_one_def start_def tier_enqueue effective_priority_def)
next
  show "tier (priorityQueue (snd (TaskQueue_add config ts s))) CRITICAL =
        tier (priorityQueue s) CRITICAL"
    by (rule add_critical)
next
  assume "\<forall>i. UpdatePriority i CRITICAL \<notin> set acts"
  then have "\<forall>a\<in>set acts. allowed no_critical a"
    by (auto simp: allowed_no_critical)
  then show "tier (priorityQueue (run config acts (TaskQueue_new config))) CRITICAL = []"
    by (intro critical_run inv_new) (simp_all add: TaskQueue_new_def tier_new)
qed

theorem critical_tier_after_add_counterexample:
  "map task_id (tier (priorityQueue (run test_config
      [Pause,
       Add [(task_literal (Some ''priority-task'') (Some LOW), test_env)],
       UpdatePriority ''priority-task'' CRITICAL] (TaskQueue_new test_config))) CRITICAL) =
   [Some ''priority-task'']"
  by code_simp

theorem critical_tier_after_add_witness:
  "priority (add_assign (task_literal (Some ''critical'') (Some CRITICAL)) test_env) = Some NORMAL \<and>
   map task_id (tier (priorityQueue (snd (TaskQueue_add test_config
      [(task_literal (Some ''critical'') (Some CRITICAL), test_env)]
      (pause (TaskQueue_new test_config))))) NORMAL) = [Some ''critical''] \<and>
   tier (priorityQueue (run test_config
      [Pause,
       Add [(task_literal (Some ''low'') (Some LOW), test_env),
            (task_literal (Some ''high'') (Some HIGH), test_env),
            (task_literal (Some ''critical'') (Some CRITICAL), test_env)],
       UpdatePriority ''low'' HIGH, Resume, LoopPass 0, Rejected 0 (Error ''e'') 1]
      (TaskQueue_new test_config))) CRITICAL = []"
proof -
  let ?t = "task_literal (Some ''critical'') (Some CRITICAL)"
  let ?acts = "[Pause,
       Add [(task_literal (Some ''low'') (Some LOW), test_env),
            (task_literal (Some ''high'') (Some HIGH), test_env),
            (task_literal (Some ''critical'') (Some CRITICAL), test_env)],
       UpdatePriority ''low'' HIGH, Resume, LoopPass 0, Rejected 0 (Error ''e'') 1]"
  note inst = critical_tier_after_add [of ?t test_env "pause (TaskQueue_new test_config)" test_config "[]" ?acts]
  have p: "priority ?t = Some CRITICAL" by (simp add: task_literal_def)
  have sz: "PriorityQueue_size (priorityQueue (pause (TaskQueue_new test_config))) < maxQueueSize test_config"
    by code_simp
  have no: "\<forall>i. UpdatePriority i CRITICAL \<notin> set ?acts" by simp
  have old: "tier (priorityQueue (pause (TaskQueue_new test_config))) NORMAL = []"
    by code_simp
  have tid: "task_id (add_assign ?t test_env) = Some ''critical''"
    by code_simp
  from inst p sz no old tid show ?thesis by simp
qed


subsection \<open>\<open>add\<close> and the queue-full error\<close>

lemma size_new: "PriorityQueue_size PriorityQueue_new = 0"
  by (simp add: PriorityQueue_size_def tier_new)

lemma add_single:
  "TaskQueue_add config [(t, env)] s =
     (if maxQueueSize config \<le> PriorityQueue_size (priorityQueue s)
      then (Some (Error ''Queue is full''), s)
      else (None, if \<not> isProcessing s \<and> \<not> isPaused s
                  then start (add_one t env s) else add_one t env s))"
  by (simp add: TaskQueue_add_def add_one_def)

lemma size_add_one:
  "PriorityQueue_size (priorityQueue (add_one t env s)) = Suc (PriorityQueue_size (priorityQueue s))"
  by (simp add: add_one_def size_enqueue)

lemma size_getAll: "PriorityQueue_size q = length (getAll q)"
  by (simp add: getAll_def PriorityQueue_size_def length_concat comp_def)

lemma dequeue_getAll:
  assumes "dequeue q = (r, q')"
  shows "case r of None \<Rightarrow> q' = q \<and> getAll q = [] | Some t \<Rightarrow> getAll q = t # getAll q'"
proof -
  have "distinct priorities" by (simp add: priorities_def)
  from dequeue_scan_spec [OF this assms [unfolded dequeue_def]]
  show ?thesis by (cases r) (auto simp: getAll_def)
qed

lemma dequeue_empty:
  assumes "PriorityQueue_size q = 0"
  shows "dequeue q = (None, q)"
proof -
  obtain r q' where d: "dequeue q = (r, q')" by (cases "dequeue q")
  from assms have "getAll q = []" by (simp add: size_getAll)
  with dequeue_getAll [OF d] d show ?thesis by (cases r) simp_all
qed

lemma getAll_enqueue_empty:
  assumes "PriorityQueue_size q = 0"
  shows "getAll (enqueue t q) = [t\<lparr>priority := Some (effective_priority t)\<rparr>]"
proof -
  from assms have "getAll q = []" by (simp add: size_getAll)
  then have "\<forall>p\<in>set priorities. tier q p = []" by (simp add: getAll_def)
  then have e: "tier q p = []" for p by (cases p) (simp_all add: priorities_def)
  show ?thesis
    by (cases "effective_priority t") (simp_all add: getAll_def priorities_def tier_enqueue e)
qed

lemma dequeue_single:
  assumes "PriorityQueue_size q = 0"
  shows "\<exists>q'. dequeue (enqueue t q) = (Some (t\<lparr>priority := Some (effective_priority t)\<rparr>), q') \<and>
     PriorityQueue_size q' = 0"
proof -
  obtain r q' where d: "dequeue (enqueue t q) = (r, q')" by (cases "dequeue (enqueue t q)")
  from dequeue_getAll [OF d] getAll_enqueue_empty [OF assms, of t] d show ?thesis
    by (cases r) (simp_all add: size_getAll)
qed

lemma add_returns_error:
  "fst (add_returns config ts now s) = fst (TaskQueue_add config ts s)"
proof -
  obtain e s' where "TaskQueue_add config ts s = (e, s')" by (cases "TaskQueue_add config ts s")
  then show ?thesis by (cases e) (simp_all add: add_returns_def)
qed

lemma add_assign_fields:
  "task_id (add_assign t env) =
     (if truthy_id (task_id t) then task_id t else Some (generateTaskId env))"
  "truthy_id (task_id (add_assign t env))"
  "priority (add_assign t env) = (if truthy_priority (priority t) then priority t else Some NORMAL)"
  "status (add_assign t env) = Some PENDING"
  "addedAt (add_assign t env) = Some (env_now env)"
  "retries (add_assign t env) = Some 0"
  "(add_assign t env)\<lparr>priority := Some (effective_priority (add_assign t env))\<rparr> = add_assign t env"
proof -
  show tid: "task_id (add_assign t env) =
      (if truthy_id (task_id t) then task_id t else Some (generateTaskId env))"
    by (simp add: add_assign_def Let_def)
  show "truthy_id (task_id (add_assign t env))"
    unfolding tid by (simp add: truthy_id_def generateTaskId_def)
  show pr: "priority (add_assign t env) =
      (if truthy_priority (priority t) then priority t else Some NORMAL)"
    by (simp add: add_assign_def Let_def)
  show "status (add_assign t env) = Some PENDING" "addedAt (add_assign t env) = Some (env_now env)"
    "retries (add_assign t env) = Some 0"
    by (simp_all add: add_assign_def Let_def)
  have "\<exists>p. priority (add_assign t env) = Some p"
    unfolding pr by (cases "priority t") (auto simp: truthy_priority_def)
  then show "(add_assign t env)\<lparr>priority := Some (effective_priority (add_assign t env))\<rparr> =
      add_assign t env"
    by (auto simp: effective_priority_def)
qed

lemma add_one_fields:
  "priorityQueue (add_one t env s) = enqueue (add_assign t env) (priorityQueue s)"
  "isProcessing (add_one t env s) = isProcessing s" "isPaused (add_one t env s) = isPaused s"
  "loops (add_one t env s) = loops s" "activeTasks (add_one t env s) = activeTasks s"
  "running (add_one t env s) = running s"
  "emitted (add_one t env s) = emitted s @ [Ev_taskAdded (add_assign t env)]"
  by (simp_all add: add_one_def)

lemma add_on_idle:
  assumes idle: "\<not> isProcessing s" "\<not> isPaused s"
    and empty: "PriorityQueue_size (priorityQueue s) = 0" "activeTasks s = []"
    and cfg: "1 \<le> concurrency config" "1 \<le> maxQueueSize config"
  shows "\<exists>pq n. PriorityQueue_size pq = 0 \<and>
     processQueue_sync config now (snd (TaskQueue_add config [(t, env)] s)) =
       (Slept n,
        processTask_begin now (add_assign t env) ((start (add_one t env s))\<lparr>priorityQueue := pq\<rparr>))"
proof -
  let ?t = "add_assign t env"
  let ?s1 = "start (add_one t env s)"
  from dequeue_single [OF empty(1), of ?t] obtain pq where
    d: "dequeue (enqueue ?t (priorityQueue s)) = (Some ?t, pq)" and pq: "PriorityQueue_size pq = 0"
    by (auto simp: add_assign_fields)
  let ?s2 = "processTask_begin now ?t (?s1\<lparr>priorityQueue := pq\<rparr>)"
  have s1: "snd (TaskQueue_add config [(t, env)] s) = ?s1"
    using idle empty cfg by (simp add: add_single)
  have p1: "processQueue_pass config now ?s1 = (Launched ?t, ?s2)"
    using idle empty cfg d by (simp add: processQueue_pass_def start_def add_one_fields)
  have a2: "activeTasks ?s2 = [task_id ?t]" "isProcessing ?s2" "\<not> isPaused ?s2"
    "priorityQueue ?s2 = pq"
    using idle empty by (simp_all add: processTask_begin_def Let_def start_def add_one_fields set_add_def)
  have p2: "\<exists>n. processQueue_pass config now ?s2 = (Slept n, ?s2)"
  proof (cases "concurrency config \<le> 1")
    case True
    then show ?thesis using a2 by (simp add: processQueue_pass_def)
  next
    case False
    then show ?thesis using a2 dequeue_empty [OF pq] by (simp add: processQueue_pass_def)
  qed
  then obtain n where p2: "processQueue_pass config now ?s2 = (Slept n, ?s2)" ..
  have "processQueue_sync config now ?s1 = (Slept n, ?s2)"
    by (subst processQueue_sync.simps, simp add: p1, subst processQueue_sync.simps, simp add: p2)
  with pq s1 show ?thesis by auto
qed

text \<open>
  C6 (as the code has it). \<open>add\<close> rejects with the plain
  \<open>Error ''Queue is full''\<close> exactly when it is given at least one task and the
  pending count plus the number of tasks given exceeds \<open>maxQueueSize\<close>, and
  resolves otherwise; this is for a queue without persistence, task objects that take
  the assignments, and listeners that return. With \<open>maxQueueSize = 2\<close> and the
  queue paused, two adds succeed and the third rejects, leaving the queue as it was. An
  \<open>add\<close> of one task that finds room gives the task an id if it has none, a
  priority, the status PENDING, \<open>addedAt\<close> and \<open>retries = 0\<close>, appends it
  to its tier, and, when the queue is neither processing nor paused, calls
  \<open>start\<close>, whose loop makes its first passes before \<open>add\<close> returns: on a
  queue that is idle and empty, with \<open>concurrency\<close> at least 1, the task has
  left the queue and is in PROCESSING when \<open>add\<close> returns.
\<close>

theorem add_rejects_when_full:
  "fst (add_returns config ts now s) =
     (if ts \<noteq> [] \<and> maxQueueSize config < PriorityQueue_size (priorityQueue s) + length ts
      then Some (Error ''Queue is full'') else None) \<and>
   (maxQueueSize config = 2 \<longrightarrow>
      (let s0 = pause (TaskQueue_new config);
           r1 = add_returns config [a] now s0;
           r2 = add_returns config [b] now (snd r1);
           r3 = add_returns config [c] now (snd r2)
       in fst r1 = None \<and> fst r2 = None \<and> fst r3 = Some (Error ''Queue is full'') \<and>
          snd r3 = snd r2 \<and> PriorityQueue_size (priorityQueue (snd r3)) = 2 \<and>
          \<not> isProcessing (snd r3) \<and> loops (snd r3) = 0 \<and> running (snd r3) = [])) \<and>
   (PriorityQueue_size (priorityQueue s) < maxQueueSize config \<longrightarrow>
      (let t' = add_assign t env;
           s1 = snd (TaskQueue_add config [(t, env)] s)
       in task_id t' = (if truthy_id (task_id t) then task_id t else Some (generateTaskId env)) \<and>
          truthy_id (task_id t') \<and>
          priority t' = (if truthy_priority (priority t) then priority t else Some NORMAL) \<and>
          status t' = Some PENDING \<and> addedAt t' = Some (env_now env) \<and> retries t' = Some 0 \<and>
          tier (priorityQueue s1) (effective_priority t') =
            tier (priorityQueue s) (effective_priority t') @ [t'] \<and>
          PriorityQueue_size (priorityQueue s1) = PriorityQueue_size (priorityQueue s) + 1 \<and>
          isProcessing s1 = (isProcessing s \<or> \<not> isPaused s) \<and>
          isPaused s1 = isPaused s \<and>
          loops s1 = (if \<not> isProcessing s \<and> \<not> isPaused s then loops s + 1 else loops s) \<and>
          snd (add_returns config [(t, env)] now s) =
            (if \<not> isProcessing s \<and> \<not> isPaused s
             then snd (processQueue_sync config now s1) else s1))) \<and>
   (\<not> isProcessing s \<and> \<not> isPaused s \<and> PriorityQueue_size (priorityQueue s) = 0 \<and>
    activeTasks s = [] \<and> 1 \<le> concurrency config \<and> 1 \<le> maxQueueSize config \<longrightarrow>
      (let t' = add_assign t env;
           s' = snd (add_returns config [(t, env)] now s)
       in PriorityQueue_size (priorityQueue s') = 0 \<and>
          running s' = running s @ [t'\<lparr>status := Some PROCESSING, startedAt := Some now\<rparr>] \<and>
          activeTasks s' = [task_id t'] \<and>
          isProcessing s' \<and> \<not> isPaused s' \<and> loops s' = loops s + 1 \<and>
          emitted s' = emitted s @
            [Ev_taskAdded t', Ev_started,
             Ev_taskStarted (t'\<lparr>status := Some PROCESSING, startedAt := Some now\<rparr>)]))"
proof (intro conjI impI)
  obtain e s' where r: "add_each config ts s = (e, s')" by (cases "add_each config ts s")
  with add_each_error [of config ts s] have "fst (TaskQueue_add config ts s) =
     (if ts \<noteq> [] \<and> maxQueueSize config < PriorityQueue_size (priorityQueue s) + length ts
      then Some (Error ''Queue is full'') else None)"
    by (cases e) (auto simp: TaskQueue_add_def)
  then show "fst (add_returns config ts now s) =
     (if ts \<noteq> [] \<and> maxQueueSize config < PriorityQueue_size (priorityQueue s) + length ts
      then Some (Error ''Queue is full'') else None)"
    by (simp add: add_returns_error)
next
  assume m: "maxQueueSize config = 2"
  obtain ta ea where a: "a = (ta, ea)" by (cases a)
  obtain tb eb where b: "b = (tb, eb)" by (cases b)
  obtain tc ec where c: "c = (tc, ec)" by (cases c)
  define s0 where "s0 = pause (TaskQueue_new config)"
  have s0: "PriorityQueue_size (priorityQueue s0) = 0" "isPaused s0" "\<not> isProcessing s0"
    "loops s0 = 0" "running s0 = []"
    by (simp_all add: s0_def pause_def TaskQueue_new_def size_new)
  define s1 where "s1 = add_one ta ea s0"
  have r1: "add_returns config [a] now s0 = (None, s1)"
    using s0 m by (simp add: a add_returns_def add_single s1_def add_one_fields)
  have s1: "PriorityQueue_size (priorityQueue s1) = 1" "isPaused s1" "\<not> isProcessing s1"
    "loops s1 = 0" "running s1 = []"
    using s0 by (simp_all add: s1_def size_add_one) (simp_all add: add_one_def)
  define s2 where "s2 = add_one tb eb s1"
  have r2: "add_returns config [b] now s1 = (None, s2)"
    using s1 m by (simp add: b add_returns_def add_single s2_def add_one_fields)
  have s2: "PriorityQueue_size (priorityQueue s2) = 2" "isPaused s2" "\<not> isProcessing s2"
    "loops s2 = 0" "running s2 = []"
    using s1 by (simp_all add: s2_def size_add_one) (simp_all add: add_one_def)
  have r3: "add_returns config [c] now s2 = (Some (Error ''Queue is full''), s2)"
    using s2 m by (simp add: c add_returns_def add_single)
  show "let s0 = pause (TaskQueue_new config);
           r1 = add_returns config [a] now s0;
           r2 = add_returns config [b] now (snd r1);
           r3 = add_returns config [c] now (snd r2)
       in fst r1 = None \<and> fst r2 = None \<and> fst r3 = Some (Error ''Queue is full'') \<and>
          snd r3 = snd r2 \<and> PriorityQueue_size (priorityQueue (snd r3)) = 2 \<and>
          \<not> isProcessing (snd r3) \<and> loops (snd r3) = 0 \<and> running (snd r3) = []"
    using r1 r2 r3 s2 unfolding Let_def s0_def [symmetric] by simp
next
  assume lt: "PriorityQueue_size (priorityQueue s) < maxQueueSize config"
  have ret: "snd (add_returns config [(t, env)] now s) =
      (if \<not> isProcessing s \<and> \<not> isPaused s
       then snd (processQueue_sync config now (snd (TaskQueue_add config [(t, env)] s)))
       else snd (TaskQueue_add config [(t, env)] s))"
    using lt by (simp add: add_returns_def add_single start_def add_one_fields)
  show "let t' = add_assign t env;
           s1 = snd (TaskQueue_add config [(t, env)] s)
       in task_id t' = (if truthy_id (task_id t) then task_id t else Some (generateTaskId env)) \<and>
          truthy_id (task_id t') \<and>
          priority t' = (if truthy_priority (priority t) then priority t else Some NORMAL) \<and>
          status t' = Some PENDING \<and> addedAt t' = Some (env_now env) \<and> retries t' = Some 0 \<and>
          tier (priorityQueue s1) (effective_priority t') =
            tier (priorityQueue s) (effective_priority t') @ [t'] \<and>
          PriorityQueue_size (priorityQueue s1) = PriorityQueue_size (priorityQueue s) + 1 \<and>
          isProcessing s1 = (isProcessing s \<or> \<not> isPaused s) \<and>
          isPaused s1 = isPaused s \<and>
          loops s1 = (if \<not> isProcessing s \<and> \<not> isPaused s then loops s + 1 else loops s) \<and>
          snd (add_returns config [(t, env)] now s) =
            (if \<not> isProcessing s \<and> \<not> isPaused s
             then snd (processQueue_sync config now s1) else s1)"
    unfolding Let_def
  proof (intro conjI)
    show "snd (add_returns config [(t, env)] now s) =
      (if \<not> isProcessing s \<and> \<not> isPaused s
       then snd (processQueue_sync config now (snd (TaskQueue_add config [(t, env)] s)))
       else snd (TaskQueue_add config [(t, env)] s))"
      by (rule ret)
    show "truthy_id (task_id (add_assign t env))"
      by (rule add_assign_fields(2))
  qed (use lt in \<open>auto simp: add_assign_fields add_single start_def add_one_fields tier_enqueue
        size_enqueue\<close>)
next
  assume h: "\<not> isProcessing s \<and> \<not> isPaused s \<and> PriorityQueue_size (priorityQueue s) = 0 \<and>
    activeTasks s = [] \<and> 1 \<le> concurrency config \<and> 1 \<le> maxQueueSize config"
  then have idle: "\<not> isProcessing s" "\<not> isPaused s"
    and empty: "PriorityQueue_size (priorityQueue s) = 0" "activeTasks s = []"
    and cfg: "1 \<le> concurrency config" "1 \<le> maxQueueSize config"
    by simp_all
  from add_on_idle [OF idle empty cfg, of now t env] obtain pq n where
    pq: "PriorityQueue_size pq = 0" and
    sync: "processQueue_sync config now (snd (TaskQueue_add config [(t, env)] s)) =
       (Slept n,
        processTask_begin now (add_assign t env) ((start (add_one t env s))\<lparr>priorityQueue := pq\<rparr>))"
    by blast
  have "snd (add_returns config [(t, env)] now s) =
      snd (processQueue_sync config now (snd (TaskQueue_add config [(t, env)] s)))"
    using idle empty cfg by (simp add: add_returns_def add_single start_def add_one_fields)
  with sync have ret: "snd (add_returns config [(t, env)] now s) =
      processTask_begin now (add_assign t env) ((start (add_one t env s))\<lparr>priorityQueue := pq\<rparr>)"
    by simp
  show "let t' = add_assign t env;
           s' = snd (add_returns config [(t, env)] now s)
       in PriorityQueue_size (priorityQueue s') = 0 \<and>
          running s' = running s @ [t'\<lparr>status := Some PROCESSING, startedAt := Some now\<rparr>] \<and>
          activeTasks s' = [task_id t'] \<and>
          isProcessing s' \<and> \<not> isPaused s' \<and> loops s' = loops s + 1 \<and>
          emitted s' = emitted s @
            [Ev_taskAdded t', Ev_started,
             Ev_taskStarted (t'\<lparr>status := Some PROCESSING, startedAt := Some now\<rparr>)]"
    unfolding Let_def ret using idle empty pq
    by (simp add: processTask_begin_def Let_def start_def add_one_fields set_add_def)
qed


text \<open>
  The rejection of the third \<open>add\<close> is an \<open>Error\<close>: its name is
  \<open>Error\<close>, not \<open>QueueFullError\<close>, a class the repository does not define.
\<close>

theorem add_rejects_when_full_counterexample:
  "(let s0 = pause (TaskQueue_new small_config);
        r1 = add_returns small_config [(task_literal (Some ''task-1'') None, test_env)] 0 s0;
        r2 = add_returns small_config [(task_literal (Some ''task-2'') None, test_env)] 0 (snd r1);
        r3 = add_returns small_config [(task_literal (Some ''task-3'') None, test_env)] 0 (snd r2)
    in fst r3 = Some (Error ''Queue is full'') \<and>
       map_option error_name (fst r3) = Some ''Error'')"
  by code_simp

theorem add_rejects_when_full_witness:
  "(let s0 = pause (TaskQueue_new small_config);
        r1 = add_returns small_config [(task_literal (Some ''task-1'') None, test_env)] 0 s0;
        r2 = add_returns small_config [(task_literal (Some ''task-2'') None, test_env)] 0 (snd r1);
        r3 = add_returns small_config [(task_literal (Some ''task-3'') None, test_env)] 0 (snd r2)
    in fst r1 = None \<and> fst r2 = None \<and> fst r3 = Some (Error ''Queue is full'') \<and>
       snd r3 = snd r2 \<and> PriorityQueue_size (priorityQueue (snd r3)) = 2 \<and>
       \<not> isProcessing (snd r3) \<and> loops (snd r3) = 0 \<and> running (snd r3) = []) \<and>
   (let t' = add_assign (task_literal None None) test_env;
        s1 = snd (TaskQueue_add small_config [(task_literal None None, test_env)]
                    (TaskQueue_new small_config));
        s' = snd (add_returns small_config [(task_literal None None, test_env)] 0
                    (TaskQueue_new small_config))
    in task_id t' = Some ''task-0-abc'' \<and> priority t' = Some NORMAL \<and>
       status t' = Some PENDING \<and> addedAt t' = Some 0 \<and> retries t' = Some 0 \<and>
       tier (priorityQueue s1) NORMAL = [t'] \<and> isProcessing s1 \<and> loops s1 = 1 \<and>
       s' = snd (processQueue_sync small_config 0 s1) \<and>
       PriorityQueue_size (priorityQueue s') = 0 \<and>
       running s' = [t'\<lparr>status := Some PROCESSING, startedAt := Some 0\<rparr>] \<and>
       activeTasks s' = [Some ''task-0-abc''] \<and> isProcessing s' \<and> loops s' = 1)"
proof -
  have m: "maxQueueSize small_config = 2"
    by (simp add: small_config_def)
  have lt: "PriorityQueue_size (priorityQueue (TaskQueue_new small_config)) < maxQueueSize small_config"
    by (simp add: small_config_def TaskQueue_new_def size_new)
  have idle: "\<not> isProcessing (TaskQueue_new small_config) \<and> \<not> isPaused (TaskQueue_new small_config) \<and>
      PriorityQueue_size (priorityQueue (TaskQueue_new small_config)) = 0 \<and>
      activeTasks (TaskQueue_new small_config) = [] \<and> 1 \<le> concurrency small_config \<and>
      1 \<le> maxQueueSize small_config"
    by (simp add: small_config_def TaskQueue_new_def size_new)
  note inst = add_rejects_when_full [where config = small_config and ts = "[]" and now = 0
      and s = "TaskQueue_new small_config"
      and a = "(task_literal (Some ''task-1'') None, test_env)"
      and b = "(task_literal (Some ''task-2'') None, test_env)"
      and c = "(task_literal (Some ''task-3'') None, test_env)"
      and t = "task_literal None None" and env = test_env]
  from inst m have first:
    "let s0 = pause (TaskQueue_new small_config);
        r1 = add_returns small_config [(task_literal (Some ''task-1'') None, test_env)] 0 s0;
        r2 = add_returns small_config [(task_literal (Some ''task-2'') None, test_env)] 0 (snd r1);
        r3 = add_returns small_config [(task_literal (Some ''task-3'') None, test_env)] 0 (snd r2)
    in fst r1 = None \<and> fst r2 = None \<and> fst r3 = Some (Error ''Queue is full'') \<and>
       snd r3 = snd r2 \<and> PriorityQueue_size (priorityQueue (snd r3)) = 2 \<and>
       \<not> isProcessing (snd r3) \<and> loops (snd r3) = 0 \<and> running (snd r3) = []"
    by blast
  define t' where "t' = add_assign (task_literal None None) test_env"
  define s1 where "s1 = snd (TaskQueue_add small_config [(task_literal None None, test_env)]
                    (TaskQueue_new small_config))"
  define s' where "s' = snd (add_returns small_config [(task_literal None None, test_env)] 0
                    (TaskQueue_new small_config))"
  from inst lt have facts:
    "task_id t' = (if truthy_id (task_id (task_literal None None))
                   then task_id (task_literal None None) else Some (generateTaskId test_env))"
    "priority t' = (if truthy_priority (priority (task_literal None None))
                    then priority (task_literal None None) else Some NORMAL)"
    "status t' = Some PENDING" "addedAt t' = Some (env_now test_env)" "retries t' = Some 0"
    "tier (priorityQueue s1) (effective_priority t') =
       tier (priorityQueue (TaskQueue_new small_config)) (effective_priority t') @ [t']"
    "isProcessing s1 = (isProcessing (TaskQueue_new small_config) \<or> \<not> isPaused (TaskQueue_new small_config))"
    "loops s1 = (if \<not> isProcessing (TaskQueue_new small_config) \<and> \<not> isPaused (TaskQueue_new small_config)
                 then loops (TaskQueue_new small_config) + 1 else loops (TaskQueue_new small_config))"
    "s' = (if \<not> isProcessing (TaskQueue_new small_config) \<and> \<not> isPaused (TaskQueue_new small_config)
           then snd (processQueue_sync small_config 0 s1) else s1)"
    unfolding t'_def s1_def s'_def Let_def by blast+
  from inst idle have after:
    "PriorityQueue_size (priorityQueue s') = 0"
    "running s' = running (TaskQueue_new small_config) @
       [t'\<lparr>status := Some PROCESSING, startedAt := Some 0\<rparr>]"
    "activeTasks s' = [task_id t']" "isProcessing s'"
    "loops s' = loops (TaskQueue_new small_config) + 1"
    unfolding t'_def s'_def Let_def by blast+
  have tid: "task_id t' = Some ''task-0-abc''"
    unfolding facts(1) by (simp add: task_literal_def truthy_id_def generateTaskId_def test_env_def)
  have pr: "priority t' = Some NORMAL"
    unfolding facts(2) by (simp add: task_literal_def truthy_priority_def)
  have at: "addedAt t' = Some 0"
    unfolding facts(4) by (simp add: test_env_def)
  have eff: "effective_priority t' = NORMAL"
    by (simp add: effective_priority_def pr)
  have tr: "tier (priorityQueue s1) NORMAL = [t']"
    using facts(6) unfolding eff by (simp add: TaskQueue_new_def tier_new)
  have fl: "isProcessing s1" "loops s1 = 1"
    unfolding facts(7,8) by (simp_all add: TaskQueue_new_def)
  have sy: "s' = snd (processQueue_sync small_config 0 s1)"
    unfolding facts(9) by (simp add: TaskQueue_new_def)
  have ru: "running s' = [t'\<lparr>status := Some PROCESSING, startedAt := Some 0\<rparr>]"
    "activeTasks s' = [Some ''task-0-abc'']" "loops s' = 1"
    using after tid by (simp_all add: TaskQueue_new_def)
  from tid pr facts(3) at facts(5) tr fl sy after(1) ru after(4) have second:
    "let t' = add_assign (task_literal None None) test_env;
        s1 = snd (TaskQueue_add small_config [(task_literal None None, test_env)]
                    (TaskQueue_new small_config));
        s' = snd (add_returns small_config [(task_literal None None, test_env)] 0
                    (TaskQueue_new small_config))
    in task_id t' = Some ''task-0-abc'' \<and> priority t' = Some NORMAL \<and>
       status t' = Some PENDING \<and> addedAt t' = Some 0 \<and> retries t' = Some 0 \<and>
       tier (priorityQueue s1) NORMAL = [t'] \<and> isProcessing s1 \<and> loops s1 = 1 \<and>
       s' = snd (processQueue_sync small_config 0 s1) \<and>
       PriorityQueue_size (priorityQueue s') = 0 \<and>
       running s' = [t'\<lparr>status := Some PROCESSING, startedAt := Some 0\<rparr>] \<and>
       activeTasks s' = [Some ''task-0-abc''] \<and> isProcessing s' \<and> loops s' = 1"
    unfolding t'_def s1_def s'_def Let_def by blast
  from first second show ?thesis by blast
qed

subsection \<open>Retries of a task that always fails\<close>

text \<open>
  What \<open>handleTaskError\<close> does with a failure: it first increments
  \<open>retries\<close>; the task goes to RETRYING, with a timer of
  \<open>retryDelay * 2 ^ (retries - 1)\<close>, when the incremented count is below
  \<open>maxRetries\<close>, and to FAILED, recorded in \<open>failedTasks\<close> and added to the
  dead-letter queue if that is enabled, when it is not.
\<close>

lemma handleTaskError_rule:
  "let n = (case retries u of None \<Rightarrow> 0 | Some r \<Rightarrow> r) + 1;
       s' = handleTaskError cfg now u e s0
   in (n < maxRetries cfg \<longrightarrow>
         timers s' = timers s0 @
           [(retryDelay cfg * 2 ^ (n - 1),
             u\<lparr>retries := Some n, lastError := Some e, status := Some RETRYING\<rparr>)] \<and>
         deadLetterQueue s' = deadLetterQueue s0 \<and> failedTasks s' = failedTasks s0) \<and>
      (maxRetries cfg \<le> n \<longrightarrow>
         timers s' = timers s0 \<and>
         last (emitted s') =
           Ev_taskFailed (u\<lparr>retries := Some n, lastError := Some e, status := Some FAILED,
                            failedAt := Some now\<rparr>) e \<and>
         failedTasks s' = AList.update (task_id u) e (failedTasks s0) \<and>
         deadLetterQueue s' =
           (if enableDeadLetter cfg
            then DeadLetterQueue_add (u\<lparr>retries := Some n, lastError := Some e,
                                         status := Some FAILED, failedAt := Some now\<rparr>)
                   (deadLetterQueue s0)
            else deadLetterQueue s0))"
  by (simp add: handleTaskError_def Let_def)

text \<open>
  A queue with no loop, no running task and no pending timer does nothing more by itself.
\<close>

lemma idle_is_final:
  assumes "loops s = 0" "running s = []" "timers s = []"
  shows "step config (LoopPass n) s = s" "step config (TimerFired i) s = s"
    "step config (Rejected i e n) s = s" "step config (Resolved i r n) s = s"
  using assms
  by (simp_all add: retry_timer_fired_def processTask_rejected_def processTask_resolved_def)

text \<open>
  With a retry delay shorter than the loop's sleep of 100 ms the retries are picked up.
  With \<open>retryDelay = 10\<close> each timer fires while the loop sleeps: the task is
  executed three times, is RETRYING twice, each time going straight to PROCESSING, and is
  then FAILED and added to the dead-letter queue once.
\<close>

lemma retries_with_short_delay:
  "(let config = test_config\<lparr>retryDelay := 10\<rparr>;
        s = run config
              [Add [(task_literal (Some ''fail-task'') None, test_env)],
               LoopPass 0, LoopPass 0, Rejected 0 (Error ''Permanent error'') 0, TimerFired 0,
               LoopPass 100, LoopPass 100, Rejected 0 (Error ''Permanent error'') 100, TimerFired 0,
               LoopPass 200, LoopPass 200, Rejected 0 (Error ''Permanent error'') 200,
               LoopPass 300, LoopPass 400]
              (TaskQueue_new config)
    in status_trace (Some ''fail-task'') (emitted s) =
         [Some PENDING, Some PROCESSING, Some RETRYING, Some PROCESSING, Some RETRYING,
          Some PROCESSING, Some FAILED] \<and>
       map fst (tasks (deadLetterQueue s)) = [Some ''fail-task''] \<and>
       dlq_emitted (deadLetterQueue s) = [DLQ_taskAdded (Some ''fail-task'')] \<and>
       map fst (failedTasks s) = [Some ''fail-task''] \<and>
       totalRetried (metrics s) = 2 \<and> totalFailed (metrics s) = 1 \<and>
       PriorityQueue_size (priorityQueue s) = 0 \<and> running s = [] \<and> timers s = [] \<and>
       \<not> isProcessing s \<and> loops s = 0)"
  by code_simp

text \<open>
  C1 (where the code departs from it). With the configuration of the repository's tests
  (\<open>maxRetries = 3\<close>, \<open>retryDelay = 100\<close>, dead-lettering enabled) a task
  whose \<open>execute\<close> rejects is executed once. The calls and callbacks below are in
  the order of their times. The loop launches the task and, on its next pass, finds the
  queue empty and sleeps 100 ms. The task rejects: \<open>handleTaskError\<close> sets it to
  RETRYING and sets a timer of 100 ms, which is due after the loop's sleep, begun
  before it. The loop wakes to nothing queued and nothing active, sets
  \<open>isProcessing\<close> to false, emits \<open>idle\<close> and sleeps; the timer puts the task
  back in the queue; the loop wakes and its \<open>while\<close> ends it. The task stays queued
  with status RETRYING and \<open>retries = 1\<close>: it is not executed again, never becomes
  FAILED and never reaches the dead-letter queue.
\<close>

theorem retry_stranded:
  "(let acts = [Add [(task_literal (Some ''fail-task'') None, test_env)],
                LoopPass 0, LoopPass 0, Rejected 0 (Error ''Permanent error'') 0,
                LoopPass 100, TimerFired 0, LoopPass 200];
        after = (\<lambda>n. run test_config (take n acts) (TaskQueue_new test_config));
        s = after 7
    in fst (processQueue_pass test_config 0 (after 2)) = Slept 100 \<and>
       map fst (timers (after 4)) = [100] \<and>
       fst (processQueue_pass test_config 100 (after 4)) = Slept 100 \<and>
       \<not> isProcessing (after 5) \<and>
       fst (processQueue_pass test_config 200 (after 6)) = Exited \<and>
       status_trace (Some ''fail-task'') (emitted s) =
         [Some PENDING, Some PROCESSING, Some RETRYING] \<and>
       map task_id (getAll (priorityQueue s)) = [Some ''fail-task''] \<and>
       map status (getAll (priorityQueue s)) = [Some RETRYING] \<and>
       map retries (getAll (priorityQueue s)) = [Some 1] \<and>
       \<not> isProcessing s \<and> loops s = 0 \<and> running s = [] \<and> timers s = [] \<and>
       activeTasks s = [] \<and>
       tasks (deadLetterQueue s) = [] \<and> failedTasks s = [] \<and>
       totalRetried (metrics s) = 1 \<and> totalFailed (metrics s) = 0 \<and>
       last (emitted s) = Ev_idle)"
  by code_simp

section \<open>Properties of DeadLetterQueue\<close>

text \<open>
  C7 (where the code departs from it). \<open>add\<close> evicts only when the oldest key is
  truthy. A queue of capacity 1 that holds a task whose id is the empty string, or a task
  without an id, takes a second task without evicting and without an overflow signal, and
  then holds two; a queue of capacity 0 takes its first task, and then holds one.
\<close>

theorem dead_letter_overflow_missed:
  "DeadLetterQueue_size
     (DeadLetterQueue_add (task_literal (Some ''task-2'') None)
        (DeadLetterQueue_add (task_literal (Some '''') None) (DeadLetterQueue_new 1))) = 2 \<and>
   dlq_emitted
     (DeadLetterQueue_add (task_literal (Some ''task-2'') None)
        (DeadLetterQueue_add (task_literal (Some '''') None) (DeadLetterQueue_new 1))) =
     [DLQ_taskAdded (Some ''''), DLQ_taskAdded (Some ''task-2'')] \<and>
   DeadLetterQueue_size
     (DeadLetterQueue_add (task_literal (Some ''task-2'') None)
        (DeadLetterQueue_add (task_literal None None) (DeadLetterQueue_new 1))) = 2 \<and>
   DeadLetterQueue_size
     (DeadLetterQueue_add (task_literal (Some ''task-1'') None) (DeadLetterQueue_new 0)) = 1 \<and>
   dlq_emitted
     (DeadLetterQueue_add (task_literal (Some ''task-1'') None) (DeadLetterQueue_new 0)) =
     [DLQ_taskAdded (Some ''task-1'')]"
  by code_simp

text \<open>
  With ids that are non-empty strings the eviction works: ten tasks into a queue of
  capacity 3 leave the last three, in order, with one overflow signal for each of the
  seven evicted.
\<close>

lemma ten_into_three:
  "map fst (tasks (foldl (\<lambda>d t. DeadLetterQueue_add t d) (DeadLetterQueue_new 3)
     (map (\<lambda>i. task_literal (Some i) None)
        [''task-0'', ''task-1'', ''task-2'', ''task-3'', ''task-4'', ''task-5'', ''task-6'',
         ''task-7'', ''task-8'', ''task-9'']))) =
     [Some ''task-7'', Some ''task-8'', Some ''task-9''] \<and>
   filter (\<lambda>e. case e of DLQ_overflow i \<Rightarrow> True | _ \<Rightarrow> False)
     (dlq_emitted (foldl (\<lambda>d t. DeadLetterQueue_add t d) (DeadLetterQueue_new 3)
     (map (\<lambda>i. task_literal (Some i) None)
        [''task-0'', ''task-1'', ''task-2'', ''task-3'', ''task-4'', ''task-5'', ''task-6'',
         ''task-7'', ''task-8'', ''task-9'']))) =
     map DLQ_overflow [''task-0'', ''task-1'', ''task-2'', ''task-3'', ''task-4'', ''task-5'', ''task-6'']"
  by code_simp

section \<open>The dead-letter queue of a TaskQueue\<close>

definition dlq_inv :: "QueueConfig \<Rightarrow> TaskQueue \<Rightarrow> bool" where
  "dlq_inv config s =
     (maxSize (deadLetterQueue s) = maxRetries config \<and>
      distinct (map fst (tasks (deadLetterQueue s))) \<and>
      (\<forall>e\<in>set (tasks (deadLetterQueue s)). fst e = task_id (snd e)))"

lemma alist_update_entries: "set (AList.update k v al) \<subseteq> insert (k, v) (set al)"
  by (induction al) auto

lemma alist_delete_entries: "set (AList.delete k al) \<subseteq> set al"
  by (auto simp: AList.delete_eq)

lemma dlq_add_entries:
  "set (tasks (DeadLetterQueue_add t d)) \<subseteq> insert (task_id t, t) (set (tasks d))"
proof -
  define d1 where "d1 = (if length (tasks d) \<ge> maxSize d then
                  (case tasks d of
                     (Some oldestId, _) # _ \<Rightarrow>
                       if oldestId \<noteq> [] then
                         d\<lparr>tasks := AList.delete (Some oldestId) (tasks d),
                           dlq_emitted := dlq_emitted d @ [DLQ_overflow oldestId]\<rparr>
                       else d
                   | _ \<Rightarrow> d)
                else d)"
  have "tasks d1 = tasks d \<or> (\<exists>k. tasks d1 = AList.delete k (tasks d))"
    unfolding d1_def by (auto split: list.splits option.splits)
  then have sub: "set (tasks d1) \<subseteq> set (tasks d)"
  proof (elim disjE exE)
    fix k assume "tasks d1 = AList.delete k (tasks d)"
    then show ?thesis using alist_delete_entries [of k "tasks d"] by simp
  qed simp
  have "tasks (DeadLetterQueue_add t d) = AList.update (task_id t) t (tasks d1)"
    unfolding DeadLetterQueue_add_def d1_def by (simp add: Let_def)
  with alist_update_entries [of "task_id t" t "tasks d1"] sub show ?thesis by auto
qed

lemma dlq_add_keeps:
  "maxSize (DeadLetterQueue_add t d) = maxSize d"
  "distinct (map fst (tasks d)) \<Longrightarrow> distinct (map fst (tasks (DeadLetterQueue_add t d)))"
  by (auto simp: DeadLetterQueue_add_def Let_def AList.distinct_update AList.distinct_delete
      split: list.splits option.splits simp del: AList.delete_simps)

lemma dlq_add_keys:
  assumes "\<forall>e\<in>set (tasks d). fst e = task_id (snd e)"
  shows "\<forall>e\<in>set (tasks (DeadLetterQueue_add t d)). fst e = task_id (snd e)"
proof
  fix e assume "e \<in> set (tasks (DeadLetterQueue_add t d))"
  with dlq_add_entries [of t d] have "e = (task_id t, t) \<or> e \<in> set (tasks d)" by auto
  with assms show "fst e = task_id (snd e)" by auto
qed

lemma add_each_deadLetterQueue: "deadLetterQueue (snd (add_each config ts s)) = deadLetterQueue s"
proof (induction ts arbitrary: s)
  case Nil
  show ?case by simp
next
  case (Cons a ts)
  obtain t env where a: "a = (t, env)" by (cases a)
  show ?case unfolding a by (simp add: Cons.IH add_one_def)
qed

lemma add_deadLetterQueue: "deadLetterQueue (snd (TaskQueue_add config ts s)) = deadLetterQueue s"
proof -
  obtain e s' where r: "add_each config ts s = (e, s')" by (cases "add_each config ts s")
  with add_each_deadLetterQueue [of config ts s] have "deadLetterQueue s' = deadLetterQueue s" by simp
  with r show ?thesis by (cases e) (simp_all add: TaskQueue_add_def start_def)
qed

lemma handleTaskError_deadLetterQueue:
  assumes "dlq_inv config s"
  shows "dlq_inv config (handleTaskError config now t err s)"
proof -
  have "deadLetterQueue (handleTaskError config now t err s) = deadLetterQueue s \<or>
        (\<exists>t'. deadLetterQueue (handleTaskError config now t err s) =
                DeadLetterQueue_add t' (deadLetterQueue s))"
    by (auto simp: handleTaskError_def Let_def)
  then show ?thesis
  proof (elim disjE exE)
    assume "deadLetterQueue (handleTaskError config now t err s) = deadLetterQueue s"
    with assms show ?thesis by (simp add: dlq_inv_def)
  next
    fix t' assume "deadLetterQueue (handleTaskError config now t err s) =
                DeadLetterQueue_add t' (deadLetterQueue s)"
    with assms dlq_add_keys [of "deadLetterQueue s" t'] show ?thesis
      by (simp add: dlq_inv_def dlq_add_keeps)
  qed
qed

lemma dlq_inv_step:
  assumes "dlq_inv config s"
  shows "dlq_inv config (step config a s)"
proof (cases a)
  case (Add ts)
  with assms show ?thesis by (simp add: dlq_inv_def add_deadLetterQueue)
next
  case (LoopPass now)
  with assms show ?thesis
    by (simp add: dlq_inv_def processQueue_pass_def processTask_begin_def Let_def
        split: prod.splits option.splits)
next
  case (Resolved i r now)
  with assms show ?thesis by (simp add: dlq_inv_def processTask_resolved_def Let_def)
next
  case (Rejected i err now)
  show ?thesis
  proof (cases "i < length (running s)")
    case True
    from assms have "dlq_inv config (s\<lparr>running := take i (running s) @ drop (Suc i) (running s)\<rparr>)"
      by (simp add: dlq_inv_def)
    from handleTaskError_deadLetterQueue [OF this] True Rejected show ?thesis
      by (simp add: processTask_rejected_def Let_def dlq_inv_def)
  next
    case False
    with assms Rejected show ?thesis by (simp add: processTask_rejected_def)
  qed
next
  case (TimerFired i)
  with assms show ?thesis by (simp add: dlq_inv_def retry_timer_fired_def)
next
  case (UpdatePriority i p)
  with assms show ?thesis by (simp add: dlq_inv_def updatePriority_def split: option.splits)
next
  case (Cancel i)
  with assms show ?thesis by (simp add: dlq_inv_def cancel_def split: prod.splits bool.splits)
next
  case (CancelTask i)
  with assms show ?thesis by (simp add: dlq_inv_def cancelTask_def split: prod.splits bool.splits)
next
  case (RetryFailed i)
  with assms show ?thesis
    using alist_delete_entries [of _ "tasks (deadLetterQueue s)"]
    by (auto simp: dlq_inv_def retryFailed_def DeadLetterQueue_remove_def DeadLetterQueue_clear_def
        AList.distinct_delete split: option.splits simp del: AList.delete_simps)
next
  case (Clear a b c)
  with assms show ?thesis by (simp add: dlq_inv_def TaskQueue_clear_def Let_def DeadLetterQueue_clear_def)
qed (use assms in \<open>simp_all add: dlq_inv_def start_def pause_def resume_def stop_begin_def stop_end_def\<close>)

lemma dlq_inv_run: "dlq_inv config s \<Longrightarrow> dlq_inv config (run config acts s)"
  unfolding run_def by (induction acts arbitrary: s) (simp_all add: dlq_inv_step)

lemma dlq_inv_new: "dlq_inv config (TaskQueue_new config)"
  by (simp add: dlq_inv_def TaskQueue_new_def DeadLetterQueue_new_def)

definition has_id :: "string option \<Rightarrow> TaskPriority option \<Rightarrow> bool" where
  "has_id i p = truthy_id i"

lemma has_id_run: "inv has_id (run config acts (TaskQueue_new config))"
proof (rule inv_run [OF _ _ inv_new])
  show "closed_enqueue has_id" by (simp add: closed_enqueue_def has_id_def)
  show "has_id (if truthy_id i then i else Some (generateTaskId env))
          (if truthy_priority p then p else Some NORMAL)" for i p env
    by (simp add: has_id_def truthy_id_def generateTaskId_def)
  show "\<forall>a\<in>set acts. allowed has_id a"
    by (auto simp: allowed_def has_id_def split: Action.splits)
qed

lemma dlq_add_full:
  assumes "tasks d = (Some oldest, old) # rest" "oldest \<noteq> []" "maxSize d \<le> length (tasks d)"
    "distinct (map fst (tasks d))"
  shows "tasks (DeadLetterQueue_add t d) = AList.update (task_id t) t rest"
    and "dlq_emitted (DeadLetterQueue_add t d) =
           dlq_emitted d @ [DLQ_overflow oldest, DLQ_taskAdded (task_id t)]"
proof -
  from assms(1,4) have "Some oldest \<notin> fst ` set rest" by auto
  then have "AList.delete (Some oldest) rest = rest" by (rule AList.delete_id)
  with assms(1,2,3) show "tasks (DeadLetterQueue_add t d) = AList.update (task_id t) t rest"
    and "dlq_emitted (DeadLetterQueue_add t d) =
           dlq_emitted d @ [DLQ_overflow oldest, DLQ_taskAdded (task_id t)]"
    by (simp_all add: DeadLetterQueue_add_def Let_def)
qed


lemma length_alist_update: "length (AList.update k v al) \<le> Suc (length al)"
  by (induction al) auto

text \<open>
  C8. The DeadLetterQueue a TaskQueue constructs has \<open>maxSize = maxRetries\<close>, and
  keeps it in every state the queue reaches. So whenever the dead-letter queue is not
  empty and holds \<open>maxRetries\<close> entries or more, the terminal failure of a running
  task evicts the oldest dead-lettered task (the first entry, signalled by an overflow
  event with its id) before the failed task is stored, and the dead-letter queue does
  not grow.
\<close>

theorem dead_letter_capacity_is_maxRetries:
  "maxSize (deadLetterQueue (run config acts (TaskQueue_new config))) = maxRetries config \<and>
   (enableDeadLetter config \<and> s = run config acts (TaskQueue_new config) \<and>
    tasks (deadLetterQueue s) = (oid, old) # rest \<and>
    maxRetries config \<le> DeadLetterQueue_size (deadLetterQueue s) \<and>
    k < length (running s) \<and>
    maxRetries config \<le> (case retries (running s ! k) of None \<Rightarrow> 0 | Some r \<Rightarrow> r) + 1 \<longrightarrow>
    (\<exists>oldest. oid = Some oldest \<and> oldest \<noteq> [] \<and>
       (let t' = (running s ! k)\<lparr>
                   retries := Some ((case retries (running s ! k) of None \<Rightarrow> 0 | Some r \<Rightarrow> r) + 1),
                   lastError := Some err, status := Some FAILED, failedAt := Some now\<rparr>;
            d' = deadLetterQueue (step config (Rejected k err now) s)
        in tasks d' = AList.update (task_id t') t' rest \<and>
           dlq_emitted d' =
             dlq_emitted (deadLetterQueue s) @ [DLQ_overflow oldest, DLQ_taskAdded (task_id t')] \<and>
           DeadLetterQueue_size d' \<le> DeadLetterQueue_size (deadLetterQueue s))))"
proof (intro conjI impI)
  from dlq_inv_run [OF dlq_inv_new, of config acts]
  show "maxSize (deadLetterQueue (run config acts (TaskQueue_new config))) = maxRetries config"
    by (simp add: dlq_inv_def)
next
  assume a: "enableDeadLetter config \<and> s = run config acts (TaskQueue_new config) \<and>
    tasks (deadLetterQueue s) = (oid, old) # rest \<and>
    maxRetries config \<le> DeadLetterQueue_size (deadLetterQueue s) \<and>
    k < length (running s) \<and>
    maxRetries config \<le> (case retries (running s ! k) of None \<Rightarrow> 0 | Some r \<Rightarrow> r) + 1"
  then have s: "s = run config acts (TaskQueue_new config)"
    and tk: "tasks (deadLetterQueue s) = (oid, old) # rest"
    by blast+
  from dlq_inv_run [OF dlq_inv_new, of config acts] s
  have di: "dlq_inv config s" by simp
  from has_id_run [of config acts] s have "inv has_id s" by simp
  then have "good has_id (map snd (tasks (deadLetterQueue s)))" by (simp add: inv_def)
  then have "truthy_id (task_id old)" unfolding tk by (simp add: has_id_def)
  moreover from di have "oid = task_id old" unfolding dlq_inv_def tk by simp
  ultimately have "truthy_id oid" by simp
  then obtain oldest where o: "oid = Some oldest" "oldest \<noteq> []"
    by (cases oid) (simp_all add: truthy_id_def)
  define n where "n = (case retries (running s ! k) of None \<Rightarrow> 0 | Some r \<Rightarrow> r) + 1"
  define t' where "t' = (running s ! k)\<lparr>retries := Some n, lastError := Some err,
    status := Some FAILED, failedAt := Some now\<rparr>"
  from a have cond: "enableDeadLetter config" "k < length (running s)"
    "maxRetries config \<le> n" "maxRetries config \<le> DeadLetterQueue_size (deadLetterQueue s)"
    unfolding n_def by blast+
  have d': "deadLetterQueue (step config (Rejected k err now) s) =
      DeadLetterQueue_add t' (deadLetterQueue s)"
    using cond by (simp add: processTask_rejected_def handleTaskError_def Let_def t'_def n_def)
  from tk o cond(4) di have full: "tasks (deadLetterQueue s) = (Some oldest, old) # rest"
    "maxSize (deadLetterQueue s) \<le> length (tasks (deadLetterQueue s))"
    by (simp_all add: dlq_inv_def DeadLetterQueue_size_def)
  from di have dist: "distinct (map fst (tasks (deadLetterQueue s)))" by (simp add: dlq_inv_def)
  note r = dlq_add_full [OF full(1) o(2) full(2) dist, of t']
  have "DeadLetterQueue_size (DeadLetterQueue_add t' (deadLetterQueue s)) \<le>
      DeadLetterQueue_size (deadLetterQueue s)"
    unfolding DeadLetterQueue_size_def r(1) full(1)
    using length_alist_update [of "task_id t'" t' rest] by simp
  with r o show "\<exists>oldest. oid = Some oldest \<and> oldest \<noteq> [] \<and>
       (let t' = (running s ! k)\<lparr>
                   retries := Some ((case retries (running s ! k) of None \<Rightarrow> 0 | Some r \<Rightarrow> r) + 1),
                   lastError := Some err, status := Some FAILED, failedAt := Some now\<rparr>;
            d' = deadLetterQueue (step config (Rejected k err now) s)
        in tasks d' = AList.update (task_id t') t' rest \<and>
           dlq_emitted d' =
             dlq_emitted (deadLetterQueue s) @ [DLQ_overflow oldest, DLQ_taskAdded (task_id t')] \<and>
           DeadLetterQueue_size d' \<le> DeadLetterQueue_size (deadLetterQueue s))"
    unfolding Let_def d' t'_def n_def by blast
qed

theorem dead_letter_capacity_is_maxRetries_witness:
  "maxSize (deadLetterQueue (TaskQueue_new test_config)) = 3 \<and>
   map fst (tasks (deadLetterQueue (run one_try_config
      [Add [(task_literal (Some ''task-a'') None, test_env),
            (task_literal (Some ''task-b'') None, test_env)],
       LoopPass 0, Rejected 0 (Error ''e'') 1, LoopPass 2] (TaskQueue_new one_try_config)))) =
     [Some ''task-a''] \<and>
   dlq_emitted (deadLetterQueue (step one_try_config (Rejected 0 (Error ''e'') 3)
     (run one_try_config
      [Add [(task_literal (Some ''task-a'') None, test_env),
            (task_literal (Some ''task-b'') None, test_env)],
       LoopPass 0, Rejected 0 (Error ''e'') 1, LoopPass 2] (TaskQueue_new one_try_config)))) =
     [DLQ_taskAdded (Some ''task-a''), DLQ_overflow ''task-a'', DLQ_taskAdded (Some ''task-b'')]"
proof -
  let ?acts = "[Add [(task_literal (Some ''task-a'') None, test_env),
            (task_literal (Some ''task-b'') None, test_env)],
       LoopPass 0, Rejected 0 (Error ''e'') 1, LoopPass 2]"
  define s where "s = run one_try_config ?acts (TaskQueue_new one_try_config)"
  have cap: "maxSize (deadLetterQueue (TaskQueue_new test_config)) = 3"
    using dead_letter_capacity_is_maxRetries [of test_config "[]"]
    by (simp add: run_def test_config_def)
  have keys: "map fst (tasks (deadLetterQueue s)) = [Some ''task-a'']"
    unfolding s_def by code_simp
  have before: "dlq_emitted (deadLetterQueue s) = [DLQ_taskAdded (Some ''task-a'')]"
    unfolding s_def by code_simp
  have run1: "running s \<noteq> []" "task_id (running s ! 0) = Some ''task-b''"
    "retries (running s ! 0) = Some 0"
    unfolding s_def by code_simp+
  from keys obtain old where tk: "tasks (deadLetterQueue s) = [(Some ''task-a'', old)]"
    by (cases "tasks (deadLetterQueue s)") auto
  have hyp: "enableDeadLetter one_try_config \<and> s = run one_try_config ?acts (TaskQueue_new one_try_config) \<and>
    tasks (deadLetterQueue s) = (Some ''task-a'', old) # [] \<and>
    maxRetries one_try_config \<le> DeadLetterQueue_size (deadLetterQueue s) \<and>
    0 < length (running s) \<and>
    maxRetries one_try_config \<le> (case retries (running s ! 0) of None \<Rightarrow> 0 | Some r \<Rightarrow> r) + 1"
  proof (intro conjI)
    show "s = run one_try_config ?acts (TaskQueue_new one_try_config)" by (rule s_def)
  qed (use tk run1 in \<open>simp_all add: one_try_config_def test_config_def DeadLetterQueue_size_def\<close>)
  from dead_letter_capacity_is_maxRetries [where config = one_try_config and acts = ?acts
      and s = s and oid = "Some ''task-a''" and old = old and rest = "[]" and k = 0
      and err = "Error ''e''" and now = 3] hyp
  have "dlq_emitted (deadLetterQueue (step one_try_config (Rejected 0 (Error ''e'') 3) s)) =
      dlq_emitted (deadLetterQueue s) @ [DLQ_overflow ''task-a'', DLQ_taskAdded (Some ''task-b'')]"
    using run1(2) by (auto simp: Let_def)
  with cap keys before show ?thesis unfolding s_def by simp
qed

section \<open>Properties of CircuitBreaker\<close>

lemma open_fields:
  "cb_state b \<noteq> OPEN \<Longrightarrow>
     cb_state (CircuitBreaker_open b) = OPEN \<and>
     cb_config (CircuitBreaker_open b) = cb_config b \<and>
     halfOpenAttempts (CircuitBreaker_open b) = 0 \<and>
     openTimer (CircuitBreaker_open b) = Some (nextHandle b) \<and>
     pendingTimers (CircuitBreaker_open b) =
       pendingTimers b @ [(nextHandle b, ToHalfOpen, cb_timeout (cb_config b))]"
  by (simp add: CircuitBreaker_open_def setTimeout_def Let_def)

lemma close_fields:
  "cb_state b \<noteq> CLOSED \<Longrightarrow>
     cb_state (CircuitBreaker_close b) = CLOSED \<and>
     cb_config (CircuitBreaker_close b) = cb_config b \<and>
     consecutiveFailures (cb_metrics (CircuitBreaker_close b)) = 0 \<and>
     consecutiveSuccesses (cb_metrics (CircuitBreaker_close b)) = consecutiveSuccesses (cb_metrics b) \<and>
     halfOpenAttempts (CircuitBreaker_close b) = 0"
  by (simp add: CircuitBreaker_close_def scheduleReset_def setTimeout_def clearTimeout_def Let_def
      split: option.splits prod.splits)

















lemma config_onSuccess: "cb_config (onSuccess now b) = cb_config b"
  by (simp add: onSuccess_def Let_def CircuitBreaker_close_def scheduleReset_def
      setTimeout_def clearTimeout_def split: option.splits prod.splits)

lemma config_onFailure: "cb_config (onFailure now b) = cb_config b"
  by (simp add: onFailure_def Let_def CircuitBreaker_open_def setTimeout_def)

lemma config_execute: "cb_config (snd (snd (execute now fn b))) = cb_config b"
  by (cases fn)
     (simp_all add: execute_def execute_admit_def Let_def config_onSuccess config_onFailure)

lemma config_executes: "cb_config (executes now fns b) = cb_config b"
  by (induction fns arbitrary: b) (simp_all add: config_execute)


































section \<open>Properties of BackoffStrategy\<close>








section \<open>Properties of RateLimiter\<close>

text \<open>
  The capacity the constructor gives the leaky bucket: \<open>burst\<close>, or ten times the
  rate, rounded up, when \<open>burst\<close> is absent or 0. What holds of the limiter in every
  state reached from its construction is stated for the leaky bucket and for the other
  strategies apart.
\<close>

definition initial_capacity :: "RateLimitConfig \<Rightarrow> real" where
  "initial_capacity config =
     (if truthy_num (burst config) then num (burst config)
      else real_of_int \<lceil>currentRate (RateLimiter_new config 0) * 10\<rceil>)"

definition leaky_inv :: "RateLimitConfig \<Rightarrow> RateLimiter \<Rightarrow> bool" where
  "leaky_inv config l =
     (rl_config l = config \<and>
      (case leakyBucket l of
         None \<Rightarrow> False
       | Some lb \<Rightarrow>
           capacity lb = initial_capacity config \<and>
           (queue lb = [] \<or> real (length (queue lb)) < capacity lb + 1)))"

lemma currentRate_new: "currentRate (RateLimiter_new config now) = currentRate (RateLimiter_new config 0)"
  by (cases "strategy config")
     (auto simp: RateLimiter_new_def initializeStrategy_def initializeTokenBucket_def
        initializeLeakyBucket_def Let_def split: Strategy.splits)

lemma leaky_inv_new:
  assumes "strategy config = Some leaky_bucket"
  shows "leaky_inv config (RateLimiter_new config now)"
proof -
  have "currentRate (RateLimiter_new config now) = currentRate (RateLimiter_new config 0)"
    by (rule currentRate_new)
  with assms show ?thesis
    by (simp add: leaky_inv_def initial_capacity_def RateLimiter_new_def initializeStrategy_def
        initializeLeakyBucket_def Let_def)
qed

lemma leaky_inv_step:
  assumes "strategy config = Some leaky_bucket" "leaky_inv config l"
  shows "leaky_inv config (rl_step a l)"
proof -
  from assms(2) obtain lb where lb: "leakyBucket l = Some lb" and cfg: "rl_config l = config"
    and cap: "capacity lb = initial_capacity config"
    and len: "queue lb = [] \<or> real (length (queue lb)) < capacity lb + 1"
    by (auto simp: leaky_inv_def split: option.splits)
  show ?thesis
  proof (cases a)
    case (Acquire key caller now)
    with assms(1) lb cfg cap len show ?thesis
      by (auto simp: leaky_inv_def acquire_def acquireLeakyBucket_def Let_def)
  next
    case (AcquireAgain key now)
    with assms(1) lb cfg cap len show ?thesis
      by (auto simp: leaky_inv_def acquire_again_def)
  next
    case (Refill now)
    with lb cfg cap len show ?thesis
      by (auto simp: leaky_inv_def token_refill_def Let_def split: option.splits)
  next
    case (Leak now)
    show ?thesis
    proof (cases "queue lb = []")
      case True
      with Leak lb assms(2) show ?thesis by (simp add: bucket_leak_def)
    next
      case False
      define k where "k = nat \<lfloor>real_of_int (now - lastLeak lb) / 1000 * leakRate lb\<rfloor>"
      from False len have "real (length (queue lb)) < capacity lb + 1" by simp
      moreover have "length (drop k (queue lb)) \<le> length (queue lb)" by simp
      ultimately have "real (length (drop k (queue lb))) < capacity lb + 1"
        by linarith
      with Leak lb cfg cap False show ?thesis
        by (simp add: leaky_inv_def bucket_leak_def Let_def k_def)
    qed
  next
    case (Adjust now)
    with lb cfg cap len show ?thesis
      by (auto simp: leaky_inv_def adjustAdaptiveRate_def Let_def split: option.splits)
  next
    case RecordSuccess
    with lb cfg cap len show ?thesis by (auto simp: leaky_inv_def recordSuccess_def)
  next
    case RecordError
    with lb cfg cap len show ?thesis by (auto simp: leaky_inv_def recordError_def)
  next
    case (Reset key)
    with lb cfg cap len show ?thesis by (auto simp: leaky_inv_def RateLimiter_reset_def Let_def)
  qed
qed

lemma leaky_inv_run:
  assumes "strategy config = Some leaky_bucket"
  shows "leaky_inv config (rl_run acts (RateLimiter_new config now))"
proof (induction acts rule: rev_induct)
  case Nil
  show ?case by (simp add: rl_run_def leaky_inv_new [OF assms])
next
  case (snoc a acts)
  have "rl_run (acts @ [a]) (RateLimiter_new config now) =
      rl_step a (rl_run acts (RateLimiter_new config now))"
    by (simp add: rl_run_def)
  with leaky_inv_step [OF assms snoc.IH] show ?case by simp
qed

definition other_inv :: "RateLimitConfig \<Rightarrow> RateLimiter \<Rightarrow> bool" where
  "other_inv config l =
     (rl_config l = config \<and> (strategy config = Some token_bucket \<longrightarrow> tokenBucket l \<noteq> None))"

lemma other_inv_new: "other_inv config (RateLimiter_new config now)"
  by (auto simp: other_inv_def RateLimiter_new_def initializeStrategy_def initializeTokenBucket_def
      initializeLeakyBucket_def Let_def split: option.splits Strategy.splits)

lemma config_acquireFixedWindow: "rl_config (snd (acquireFixedWindow key now l)) = rl_config l"
  "tokenBucket (snd (acquireFixedWindow key now l)) = tokenBucket l"
  by (simp_all add: acquireFixedWindow_def Let_def)

lemma config_acquireSlidingWindow: "rl_config (snd (acquireSlidingWindow key now l)) = rl_config l"
  "tokenBucket (snd (acquireSlidingWindow key now l)) = tokenBucket l"
  by (simp_all add: acquireSlidingWindow_def Let_def)

lemma config_acquireTokenBucket: "rl_config (snd (acquireTokenBucket now l)) = rl_config l"
  "tokenBucket l \<noteq> None \<Longrightarrow> tokenBucket (snd (acquireTokenBucket now l)) \<noteq> None"
  by (auto simp: acquireTokenBucket_def Let_def split: option.splits)

lemma config_acquireLeakyBucket: "rl_config (snd (acquireLeakyBucket caller now l)) = rl_config l"
  "tokenBucket (snd (acquireLeakyBucket caller now l)) = tokenBucket l"
  by (auto simp: acquireLeakyBucket_def Let_def split: option.splits)

lemma other_inv_step:
  assumes "other_inv config l"
  shows "other_inv config (rl_step a l)"
proof (cases a)
  case (Acquire key caller now)
  with assms show ?thesis
    by (auto simp: other_inv_def acquire_def Let_def config_acquireFixedWindow
        config_acquireSlidingWindow config_acquireTokenBucket config_acquireLeakyBucket
        split: option.splits Strategy.splits)
next
  case (AcquireAgain key now)
  with assms show ?thesis
    by (auto simp: other_inv_def acquire_again_def Let_def config_acquireFixedWindow
        config_acquireSlidingWindow config_acquireTokenBucket
        split: option.splits Strategy.splits)
next
  case (Refill now)
  with assms show ?thesis
    by (auto simp: other_inv_def token_refill_def Let_def split: option.splits)
next
  case (Leak now)
  with assms show ?thesis
    by (auto simp: other_inv_def bucket_leak_def Let_def split: option.splits)
next
  case (Adjust now)
  with assms show ?thesis
    by (auto simp: other_inv_def adjustAdaptiveRate_def Let_def split: option.splits)
next
  case RecordSuccess
  with assms show ?thesis by (auto simp: other_inv_def recordSuccess_def)
next
  case RecordError
  with assms show ?thesis by (auto simp: other_inv_def recordError_def)
next
  case (Reset key)
  with assms show ?thesis by (auto simp: other_inv_def RateLimiter_reset_def Let_def)
qed

lemma other_inv_run: "other_inv config (rl_run acts (RateLimiter_new config now))"
proof (induction acts rule: rev_induct)
  case Nil
  show ?case by (simp add: rl_run_def other_inv_new)
next
  case (snoc a acts)
  have "rl_run (acts @ [a]) (RateLimiter_new config now) =
      rl_step a (rl_run acts (RateLimiter_new config now))"
    by (simp add: rl_run_def)
  with other_inv_step [OF snoc.IH] show ?case by simp
qed

lemma others_do_not_fail:
  assumes "other_inv config l" "strategy config \<noteq> Some leaky_bucket"
  shows "\<not> fails (fst (acquire key caller now l))" "\<not> fails (fst (acquire_again key now l))"
    "fst (acquire key caller now l) \<noteq> Enqueued"
  using assms
  by (auto simp: other_inv_def acquire_def acquire_again_def Let_def acquireFixedWindow_def
      acquireSlidingWindow_def acquireTokenBucket_def split: option.splits Strategy.splits)

lemma length_le_ceiling:
  assumes "real n < c + 1"
  shows "real n \<le> real_of_int \<lceil>c\<rceil>"
proof -
  from assms have "real n - 1 < c" by simp
  also have "c \<le> real_of_int \<lceil>c\<rceil>" by simp
  finally have "real_of_int (int n - 1) < real_of_int \<lceil>c\<rceil>" by simp
  then have "int n - 1 < \<lceil>c\<rceil>" by (simp only: of_int_less_iff)
  then have "int n \<le> \<lceil>c\<rceil>" by simp
  then have "real_of_int (int n) \<le> real_of_int \<lceil>c\<rceil>" by (simp only: of_int_le_iff)
  then show ?thesis by simp
qed

text \<open>
  C10 (as the code has it). With the leaky-bucket strategy, in every state the limiter
  reaches from its construction, the bucket exists with the capacity the constructor
  gave it, its queue is no longer than that capacity rounded up, and \<open>acquire\<close>
  counts the request and then rejects at once with
  \<open>Error ''Rate limit exceeded: bucket is full''\<close>, leaving the queue as it is,
  exactly when the queue's length has reached the capacity; otherwise it appends the
  caller to the queue, to be resolved by the leak. With any other strategy no attempt of
  \<open>acquire\<close>, first or later, ends in a rejection. The limiter's emits are not part
  of the model: its listeners are taken to return.
\<close>

theorem leaky_bucket_rejects_when_full:
  "(strategy config = Some leaky_bucket \<longrightarrow>
      (let l = rl_run acts (RateLimiter_new config t0);
           l1 = l\<lparr>adaptiveMetrics := (adaptiveMetrics l)\<lparr>
                  am_totalRequests := am_totalRequests (adaptiveMetrics l) + 1\<rparr>\<rparr>
       in \<exists>lb. leakyBucket l = Some lb \<and>
            capacity lb = initial_capacity config \<and>
            real (length (queue lb)) \<le> max 0 (real_of_int \<lceil>capacity lb\<rceil>) \<and>
            acquire key caller now l =
              (if capacity lb \<le> real (length (queue lb))
               then (Throws (Error ''Rate limit exceeded: bucket is full''), l1)
               else (Enqueued,
                     l1\<lparr>leakyBucket := Some (lb\<lparr>queue := queue lb @ [(caller, now)]\<rparr>)\<rparr>)))) \<and>
   (strategy config' \<noteq> Some leaky_bucket \<longrightarrow>
      \<not> fails (fst (acquire key caller now (rl_run acts' (RateLimiter_new config' t0)))) \<and>
      \<not> fails (fst (acquire_again key now (rl_run acts' (RateLimiter_new config' t0)))))"
proof (intro conjI impI)
  assume s: "strategy config = Some leaky_bucket"
  define l where "l = rl_run acts (RateLimiter_new config t0)"
  from leaky_inv_run [OF s, of acts t0] obtain lb where lb: "leakyBucket l = Some lb"
    and cfg: "rl_config l = config" and cap: "capacity lb = initial_capacity config"
    and len: "queue lb = [] \<or> real (length (queue lb)) < capacity lb + 1"
    by (auto simp: leaky_inv_def l_def split: option.splits)
  from len have bound: "real (length (queue lb)) \<le> max 0 (real_of_int \<lceil>capacity lb\<rceil>)"
  proof
    assume "queue lb = []"
    then show ?thesis by simp
  next
    assume "real (length (queue lb)) < capacity lb + 1"
    then have "real (length (queue lb)) \<le> real_of_int \<lceil>capacity lb\<rceil>"
      by (rule length_le_ceiling)
    then show ?thesis by simp
  qed
  have acq: "acquire key caller now l =
      (if capacity lb \<le> real (length (queue lb))
       then (Throws (Error ''Rate limit exceeded: bucket is full''),
             l\<lparr>adaptiveMetrics := (adaptiveMetrics l)\<lparr>
                  am_totalRequests := am_totalRequests (adaptiveMetrics l) + 1\<rparr>\<rparr>)
       else (Enqueued,
             l\<lparr>adaptiveMetrics := (adaptiveMetrics l)\<lparr>
                  am_totalRequests := am_totalRequests (adaptiveMetrics l) + 1\<rparr>,
               leakyBucket := Some (lb\<lparr>queue := queue lb @ [(caller, now)]\<rparr>)\<rparr>))"
    using s lb cfg by (simp add: acquire_def acquireLeakyBucket_def Let_def)
  show "let l = rl_run acts (RateLimiter_new config t0);
           l1 = l\<lparr>adaptiveMetrics := (adaptiveMetrics l)\<lparr>
                  am_totalRequests := am_totalRequests (adaptiveMetrics l) + 1\<rparr>\<rparr>
       in \<exists>lb. leakyBucket l = Some lb \<and>
            capacity lb = initial_capacity config \<and>
            real (length (queue lb)) \<le> max 0 (real_of_int \<lceil>capacity lb\<rceil>) \<and>
            acquire key caller now l =
              (if capacity lb \<le> real (length (queue lb))
               then (Throws (Error ''Rate limit exceeded: bucket is full''), l1)
               else (Enqueued,
                     l1\<lparr>leakyBucket := Some (lb\<lparr>queue := queue lb @ [(caller, now)]\<rparr>)\<rparr>))"
    unfolding Let_def l_def [symmetric]
    using lb cap bound acq by (intro exI [of _ lb]) simp
next
  assume "strategy config' \<noteq> Some leaky_bucket"
  from others_do_not_fail(1) [OF other_inv_run this]
  show "\<not> fails (fst (acquire key caller now (rl_run acts' (RateLimiter_new config' t0))))" .
next
  assume "strategy config' \<noteq> Some leaky_bucket"
  from others_do_not_fail(2) [OF other_inv_run this]
  show "\<not> fails (fst (acquire_again key now (rl_run acts' (RateLimiter_new config' t0))))" .
qed

lemmas limiter_defs = rl_run_def acquire_def acquireLeakyBucket_def RateLimiter_new_def
  initializeStrategy_def initializeLeakyBucket_def initializeTokenBucket_def leaky_config_def
  token_config_def truthy_num_def num_def Let_def acquireTokenBucket_def

text \<open>
  The rejection is an \<open>Error\<close>: its name is \<open>Error\<close>, not
  \<open>RateLimitExceededError\<close>, a class the repository does not define. And a capacity
  that is not a whole number is exceeded: with \<open>burst = 2.5\<close> the queue takes three
  callers.
\<close>

theorem leaky_bucket_rejects_when_full_counterexample:
  "fst (acquire ''default'' 2 0
          (rl_run [Acquire ''default'' 0 0, Acquire ''default'' 1 0]
             (RateLimiter_new leaky_config 0))) =
     Throws (Error ''Rate limit exceeded: bucket is full'') \<and>
   error_name (Error ''Rate limit exceeded: bucket is full'') = ''Error'' \<and>
   map_option (\<lambda>lb. (length (queue lb), capacity lb))
     (leakyBucket
        (rl_run [Acquire ''default'' 0 0, Acquire ''default'' 1 0, Acquire ''default'' 2 0]
           (RateLimiter_new (leaky_config\<lparr>burst := Some (5 / 2)\<rparr>) 0))) =
     Some (3, 5 / 2)"
  by (simp add: limiter_defs)

theorem leaky_bucket_rejects_when_full_witness:
  "acquire ''default'' 2 0
     (rl_run [Acquire ''default'' 0 0, Acquire ''default'' 1 0] (RateLimiter_new leaky_config 0)) =
     (Throws (Error ''Rate limit exceeded: bucket is full''),
      (rl_run [Acquire ''default'' 0 0, Acquire ''default'' 1 0] (RateLimiter_new leaky_config 0))
        \<lparr>adaptiveMetrics := \<lparr>successCount = 0, errorCount = 0, am_totalRequests = 3,
                             lastAdjustment = 0\<rparr>\<rparr>) \<and>
   \<not> fails (fst (acquire ''default'' 2 0 (rl_run [] (RateLimiter_new token_config 0))))"
proof -
  define l where "l = rl_run [Acquire ''default'' 0 0, Acquire ''default'' 1 0]
      (RateLimiter_new leaky_config 0)"
  have s: "strategy leaky_config = Some leaky_bucket" "strategy token_config \<noteq> Some leaky_bucket"
    by (simp_all add: leaky_config_def token_config_def)
  have lbv: "leakyBucket l =
      Some \<lparr>queue = [(0, 0), (1, 0)], capacity = 2, leakRate = 1, lastLeak = 0\<rparr>"
    and am: "adaptiveMetrics l = \<lparr>successCount = 0, errorCount = 0, am_totalRequests = 2,
                             lastAdjustment = 0\<rparr>"
    unfolding l_def by (simp_all add: limiter_defs)
  note inst = leaky_bucket_rejects_when_full [where config = leaky_config
      and acts = "[Acquire ''default'' 0 0, Acquire ''default'' 1 0]" and ?t0.0 = 0
      and key = "''default''" and caller = 2 and now = 0
      and config' = token_config and acts' = "[]"]
  from inst s obtain lb where lb: "leakyBucket l = Some lb"
    and acq: "acquire ''default'' 2 0 l =
      (if capacity lb \<le> real (length (queue lb))
       then (Throws (Error ''Rate limit exceeded: bucket is full''),
             l\<lparr>adaptiveMetrics := (adaptiveMetrics l)\<lparr>
                  am_totalRequests := am_totalRequests (adaptiveMetrics l) + 1\<rparr>\<rparr>)
       else (Enqueued,
             l\<lparr>adaptiveMetrics := (adaptiveMetrics l)\<lparr>
                  am_totalRequests := am_totalRequests (adaptiveMetrics l) + 1\<rparr>,
               leakyBucket := Some (lb\<lparr>queue := queue lb @ [(2, 0)]\<rparr>)\<rparr>))"
    unfolding Let_def l_def [symmetric] by auto
  from lb lbv have "lb = \<lparr>queue = [(0, 0), (1, 0)], capacity = 2, leakRate = 1, lastLeak = 0\<rparr>"
    by simp
  with acq am have first: "acquire ''default'' 2 0 l =
     (Throws (Error ''Rate limit exceeded: bucket is full''),
      l\<lparr>adaptiveMetrics := \<lparr>successCount = 0, errorCount = 0, am_totalRequests = 3,
                             lastAdjustment = 0\<rparr>\<rparr>)"
    by simp
  from inst s have second:
    "\<not> fails (fst (acquire ''default'' 2 0 (rl_run [] (RateLimiter_new token_config 0))))"
    by blast
  from first second show ?thesis unfolding l_def by blast
qed


end
